theory Spec2Isabelle
  imports Main "HOL-Library.Sublist"
begin

section \<open>Python values used by the two scripts\<close>

text \<open>
  The development embeds \<^verbatim>\<open>list_tangled_commits.py\<close> and \<^verbatim>\<open>list_tangled_lines.py\<close>.
  Exceptions are values of \<open>py_error\<close>; a computation that prints returns the printed
  lines (standard output, oldest first) together with its outcome.
\<close>

datatype py_error =
    IndexError
  | DoesNotExist
  | MultipleObjectsReturned
  | ValidationError
  | ValueError string
  | SystemExit int

type_synonym label = string

type_synonym 'a printed = "string list \<times> (py_error + 'a)"

subsection \<open>Strings\<close>

definition endswith :: "string \<Rightarrow> string \<Rightarrow> bool" where
  "endswith s suf \<longleftrightarrow> suffix suf s"

text \<open>Python's \<^verbatim>\<open>sub in s\<close> on strings: \<open>sub\<close> occurs contiguously in \<open>s\<close>.\<close>

definition str_contains :: "string \<Rightarrow> string \<Rightarrow> bool" where
  "str_contains s sub \<longleftrightarrow> sublist sub s"

text \<open>
  \<^verbatim>\<open>str.splitlines()\<close>: the line boundaries among the characters below 256 are
  LF, VT, FF, CR, FS, GS, RS and NEL, and CR LF counts as one boundary. The
  boundaries are dropped, and a boundary at the very end opens no further line.
\<close>

definition is_line_boundary :: "char \<Rightarrow> bool" where
  "is_line_boundary c \<longleftrightarrow>
     c \<in> {CHR 0x0A, CHR 0x0B, CHR 0x0C, CHR 0x0D, CHR 0x1C, CHR 0x1D, CHR 0x1E, CHR 0x85}"

fun splitlines_from :: "string \<Rightarrow> string \<Rightarrow> string list" where
  "splitlines_from cur [] = (if cur = [] then [] else [cur])"
| "splitlines_from cur [c] = (if is_line_boundary c then [cur] else [cur @ [c]])"
| "splitlines_from cur (c # d # rest) =
     (if c = CHR 0x0D \<and> d = CHR 0x0A then cur # splitlines_from [] rest
      else if is_line_boundary c then cur # splitlines_from [] (d # rest)
      else splitlines_from (cur @ [c]) (d # rest))"

definition splitlines :: "string \<Rightarrow> string list" where
  "splitlines s = splitlines_from [] s"

subsection \<open>Lists and the auto-growing list\<close>

text \<open>
  Python list indexing: a negative index counts from the end, and an index outside the
  list raises \<^verbatim>\<open>IndexError\<close>.
\<close>

definition list_index :: "'a list \<Rightarrow> int \<Rightarrow> nat option" where
  "list_index xs i =
     (let n = int (length xs); j = (if i < 0 then i + n else i)
      in if 0 \<le> j \<and> j < n then Some (nat j) else None)"

definition list_getitem :: "'a list \<Rightarrow> int \<Rightarrow> py_error + 'a" where
  "list_getitem xs i =
     (case list_index xs i of None \<Rightarrow> Inl IndexError | Some j \<Rightarrow> Inr (xs ! j))"

definition list_setitem :: "'a list \<Rightarrow> int \<Rightarrow> 'a \<Rightarrow> py_error + 'a list" where
  "list_setitem xs i v =
     (case list_index xs i of None \<Rightarrow> Inl IndexError | Some j \<Rightarrow> Inr (xs[j := v]))"

text \<open>
  \<^verbatim>\<open>defaultlist()\<close> of the \<^verbatim>\<open>defaultlist\<close> package, created without a factory: a
  list whose missing entries are \<^verbatim>\<open>None\<close>. Reading or writing index \<open>i\<close> first
  appends \<open>i - len + 1\<close> entries \<^verbatim>\<open>None\<close> when that number is positive, and then
  indexes the underlying list; so a read changes the list too, and a negative index
  is left to plain list indexing.
\<close>

type_synonym defaultlist = "label option list"

definition dl_fill :: "defaultlist \<Rightarrow> int \<Rightarrow> defaultlist" where
  "dl_fill xs i =
     (let missing = i - int (length xs) + 1
      in if missing > 0 then xs @ replicate (nat missing) None else xs)"

definition dl_getitem :: "defaultlist \<Rightarrow> int \<Rightarrow> py_error + (label option \<times> defaultlist)" where
  "dl_getitem xs i =
     (let ys = dl_fill xs i
      in case list_getitem ys i of Inl e \<Rightarrow> Inl e | Inr v \<Rightarrow> Inr (v, ys))"

definition dl_setitem :: "defaultlist \<Rightarrow> int \<Rightarrow> label \<Rightarrow> py_error + defaultlist" where
  "dl_setitem xs i v = list_setitem (dl_fill xs i) i (Some v)"

text \<open>Truth value of an entry: \<^verbatim>\<open>None\<close> and the empty string are false.\<close>

fun truthy :: "label option \<Rightarrow> bool" where
  "truthy None = False"
| "truthy (Some l) = (l \<noteq> [])"

text \<open>What an f-string shows for an entry.\<close>

fun str_entry :: "label option \<Rightarrow> string" where
  "str_entry None = ''None''"
| "str_entry (Some l) = l"

section \<open>The data set\<close>

text \<open>
  The documents of the SmartSHARK collections the scripts read, with the fields they
  use. Object ids are natural numbers. \<open>lines_verified\<close> is a dictionary from label to
  the line offsets given that label, and \<open>labels\<close> a dictionary from label name to
  truth value; both are kept as the list of their items in iteration order.
\<close>

type_synonym oid = nat

record project =
  project_id :: oid
  name :: string

record vcs_system =
  vcs_system_id :: oid
  vcs_project_id :: oid

record commit =
  commit_id :: oid
  commit_vcs_system_id :: oid
  revision_hash :: string
  labels :: "(string \<times> bool) list option"
  parents :: "string list"

record file_action =
  file_action_id :: oid
  fa_commit_id :: oid
  file_id :: "oid option"
  old_file_id :: "oid option"
  mode :: string

record File =
  file_oid :: oid
  path :: string

record hunk =
  hunk_file_action_id :: oid
  content :: string
  lines_verified :: "(label \<times> int list) list"

record db =
  Project_objects :: "project list"
  VCSSystem_objects :: "vcs_system list"
  Commit_objects :: "commit list"
  FileAction_objects :: "file_action list"
  File_objects :: "File list"
  Hunk_objects :: "hunk list"

text \<open>\<^verbatim>\<open>QuerySet.get()\<close>: the one matching document, or an exception.\<close>

fun objects_get :: "'a list \<Rightarrow> py_error + 'a" where
  "objects_get [] = Inl DoesNotExist"
| "objects_get [x] = Inr x"
| "objects_get (x # y # rest) = Inl MultipleObjectsReturned"

text \<open>
  \<^verbatim>\<open>File.objects(id=i).get()\<close>, where \<open>i\<close> may be \<^verbatim>\<open>None\<close>: the query is refused when
  \<open>i\<close> is no object id.
\<close>

definition File_get :: "db \<Rightarrow> oid option \<Rightarrow> py_error + File" where
  "File_get d i =
     (case i of
        None \<Rightarrow> Inl ValidationError
      | Some j \<Rightarrow> objects_get (filter (\<lambda>f. file_oid f = j) (File_objects d)))"

text \<open>
  The constants imported from \<^verbatim>\<open>export_lltc4j\<close>, a module outside the two scripts:
  they are parameters of the development.
\<close>

record settings =
  PROJECTS :: "string list"
  LINE_LABELS_CODE :: "label list"
  LINE_LABELS_CODE_FIX :: "label list"
  LINE_LABELS_CODE_NO_FIX :: "label list"

section \<open>Line granularity (list\_tangled\_commits.py)\<close>

datatype 's ctl =
    Continue 's
  | Return "string list" bool
  | Raise "string list" py_error

text \<open>The loop \<^verbatim>\<open>for i in offset_line_numbers\<close>, for one label.\<close>

fun offsets_loop ::
  "string \<Rightarrow> string list \<Rightarrow> label \<Rightarrow> int list \<Rightarrow> defaultlist \<Rightarrow> defaultlist ctl" where
  "offsets_loop commit_hash hunk_content_by_line label [] line_labels = Continue line_labels"
| "offsets_loop commit_hash hunk_content_by_line label (i # rest) line_labels =
     (case dl_getitem line_labels i of
        Inl e \<Rightarrow> Raise [] e
      | Inr (v, line_labels1) \<Rightarrow>
          if truthy v then
            (case list_getitem hunk_content_by_line i of
               Inl e \<Rightarrow> Raise [] e
             | Inr text \<Rightarrow>
                 (let out1 = [''Tangled line in '' @ commit_hash @ '': '' @ text]
                  in case dl_getitem line_labels1 i of
                       Inl e \<Rightarrow> Raise out1 e
                     | Inr (v2, line_labels2) \<Rightarrow>
                         Return (out1 @ [''Found label '' @ str_entry v2 @ '' and '' @ label])
                           True))
          else
            (case dl_setitem line_labels1 i label of
               Inl e \<Rightarrow> Raise [] e
             | Inr line_labels2 \<Rightarrow>
                 offsets_loop commit_hash hunk_content_by_line label rest line_labels2))"

text \<open>The loop \<^verbatim>\<open>for label, offset_line_numbers in hunk.lines_verified.items()\<close>.\<close>

fun labels_loop ::
  "string \<Rightarrow> string list \<Rightarrow> (label \<times> int list) list \<Rightarrow> defaultlist \<Rightarrow> defaultlist ctl" where
  "labels_loop commit_hash hunk_content_by_line [] line_labels = Continue line_labels"
| "labels_loop commit_hash hunk_content_by_line ((label, offset_line_numbers) # items) line_labels =
     (case offsets_loop commit_hash hunk_content_by_line label offset_line_numbers line_labels of
        Continue line_labels1 \<Rightarrow> labels_loop commit_hash hunk_content_by_line items line_labels1
      | Return out b \<Rightarrow> Return out b
      | Raise out e \<Rightarrow> Raise out e)"

fun has_tangled_lines :: "hunk list \<Rightarrow> string \<Rightarrow> bool printed" where
  "has_tangled_lines [] commit_hash = ([], Inr False)"
| "has_tangled_lines (hunk # hunks) commit_hash =
     (let hunk_content_by_line = splitlines (content hunk);
          line_labels = []
      in case labels_loop commit_hash hunk_content_by_line (lines_verified hunk) line_labels of
           Continue _ \<Rightarrow> has_tangled_lines hunks commit_hash
         | Return out b \<Rightarrow> (out, Inr b)
         | Raise out e \<Rightarrow> (out, Inl e))"

section \<open>Hunk granularity (list\_tangled\_commits.py)\<close>

text \<open>
  The loop over the labels of one hunk; \<open>seen_labels\<close> is the set built so far, and the
  result tells whether the loop returned \<^verbatim>\<open>True\<close>.
\<close>

fun seen_loop :: "settings \<Rightarrow> (label \<times> int list) list \<Rightarrow> string set \<Rightarrow> bool" where
  "seen_loop cfg [] seen_labels = False"
| "seen_loop cfg ((label, uu) # items) seen_labels =
     (if label \<notin> set (LINE_LABELS_CODE cfg) then seen_loop cfg items seen_labels
      else
        (let seen_labels1 =
               (if label \<in> set (LINE_LABELS_CODE_FIX cfg) then insert ''fix'' seen_labels
                else if label \<in> set (LINE_LABELS_CODE_NO_FIX cfg) then insert ''nofix'' seen_labels
                else seen_labels)
         in if card seen_labels1 = 2 then True else seen_loop cfg items seen_labels1))"

fun has_tangled_hunks :: "settings \<Rightarrow> hunk list \<Rightarrow> string \<Rightarrow> bool" where
  "has_tangled_hunks cfg [] commit_hash = False"
| "has_tangled_hunks cfg (hunk # hunks) commit_hash =
     (if seen_loop cfg (lines_verified hunk) {} then True
      else has_tangled_hunks cfg hunks commit_hash)"

section \<open>Files and commits (list\_tangled\_commits.py)\<close>

definition is_java_file :: "File \<Rightarrow> bool" where
  "is_java_file file \<longleftrightarrow> endswith (path file) ''.java''"

definition is_test_file :: "File \<Rightarrow> bool" where
  "is_test_file file \<longleftrightarrow>
     str_contains (path file) ''test/''
     \<or> str_contains (path file) ''tests/''
     \<or> endswith (path file) ''Test.java''
     \<or> endswith (path file) ''Tests.java''"

definition get_changed_file :: "db \<Rightarrow> file_action \<Rightarrow> py_error + File" where
  "get_changed_file d fa =
     (if file_id fa \<noteq> None then File_get d (file_id fa)
      else File_get d (old_file_id fa))"

type_synonym tangle_func = "hunk list \<Rightarrow> string \<Rightarrow> bool printed"

text \<open>
  The loop over the file actions of a commit. The result \<open>None\<close> is the value of a
  call that reaches the end of the function body without a \<^verbatim>\<open>return\<close>.
\<close>

fun file_actions_loop ::
  "db \<Rightarrow> commit \<Rightarrow> tangle_func \<Rightarrow> file_action list \<Rightarrow> bool option printed" where
  "file_actions_loop d commit tangle_func [] = ([], Inr None)"
| "file_actions_loop d commit tangle_func (fa # fas) =
     (case get_changed_file d fa of
        Inl e \<Rightarrow> ([], Inl e)
      | Inr file \<Rightarrow>
          if \<not> is_java_file file \<or> is_test_file file
          then file_actions_loop d commit tangle_func fas
          else
            (case tangle_func
                    (filter (\<lambda>h. hunk_file_action_id h = file_action_id fa) (Hunk_objects d))
                    (revision_hash commit) of
               (out, Inl e) \<Rightarrow> (out, Inl e)
             | (out, Inr b) \<Rightarrow> (out, Inr (Some b))))"

definition is_commit_tangled :: "db \<Rightarrow> commit \<Rightarrow> tangle_func \<Rightarrow> bool option printed" where
  "is_commit_tangled d commit tangle_func =
     (if (case labels commit of
            None \<Rightarrow> False
          | Some ls \<Rightarrow>
              (case map_of ls ''validated_bugfix'' of None \<Rightarrow> False | Some v \<Rightarrow> v)
              \<and> length (parents commit) = 1)
      then file_actions_loop d commit tangle_func
             (filter (\<lambda>fa. fa_commit_id fa = commit_id commit) (FileAction_objects d))
      else ([], Inr (Some False)))"

text \<open>
  The loops of \<^verbatim>\<open>find_tangled_commits\<close>. A commit is appended when the value of
  \<^verbatim>\<open>is_commit_tangled\<close> is true; \<^verbatim>\<open>None\<close> is false in a condition.
\<close>

fun commits_loop ::
  "db \<Rightarrow> tangle_func \<Rightarrow> project \<Rightarrow> commit list \<Rightarrow> (string \<times> string) list
     \<Rightarrow> (string \<times> string) list printed" where
  "commits_loop d tangle_func project [] tangled_commits = ([], Inr tangled_commits)"
| "commits_loop d tangle_func project (commit # commits) tangled_commits =
     (case is_commit_tangled d commit tangle_func of
        (out, Inl e) \<Rightarrow> (out, Inl e)
      | (out, Inr r) \<Rightarrow>
          (let tangled_commits1 =
                 (if r = Some True
                  then tangled_commits @ [(name project, revision_hash commit)]
                  else tangled_commits)
           in case commits_loop d tangle_func project commits tangled_commits1 of
                (out1, res) \<Rightarrow> (out @ out1, res)))"

fun projects_loop ::
  "db \<Rightarrow> tangle_func \<Rightarrow> project list \<Rightarrow> (string \<times> string) list
     \<Rightarrow> (string \<times> string) list printed" where
  "projects_loop d tangle_func [] tangled_commits = ([], Inr tangled_commits)"
| "projects_loop d tangle_func (project # projects) tangled_commits =
     (case objects_get
             (filter (\<lambda>v. vcs_project_id v = project_id project) (VCSSystem_objects d)) of
        Inl e \<Rightarrow> ([], Inl e)
      | Inr vcs_system \<Rightarrow>
          (case commits_loop d tangle_func project
                  (filter (\<lambda>c. commit_vcs_system_id c = vcs_system_id vcs_system)
                     (Commit_objects d))
                  tangled_commits of
             (out, Inl e) \<Rightarrow> (out, Inl e)
           | (out, Inr tangled_commits1) \<Rightarrow>
               (case projects_loop d tangle_func projects tangled_commits1 of
                  (out1, res) \<Rightarrow> (out @ out1, res))))"

text \<open>
  A run of \<^verbatim>\<open>find_tangled_commits\<close> yields whether \<^verbatim>\<open>connect_to_db()\<close> was called,
  the lines printed, and the list returned or the exception raised. The data set is
  read only by the loops, after the connection.
\<close>

definition find_tangled_commits ::
  "settings \<Rightarrow> db \<Rightarrow> string \<Rightarrow> bool \<times> (string \<times> string) list printed" where
  "find_tangled_commits cfg d tangle_granularity =
     (if tangle_granularity = ''hunk''
      then (True, projects_loop d (\<lambda>hunks h. ([], Inr (has_tangled_hunks cfg hunks h)))
                    (filter (\<lambda>p. name p \<in> set (PROJECTS cfg)) (Project_objects d)) [])
      else if tangle_granularity = ''line''
      then (True, projects_loop d has_tangled_lines
                    (filter (\<lambda>p. name p \<in> set (PROJECTS cfg)) (Project_objects d)) [])
      else (False, [], Inl (ValueError (''Unknown tangle granularity: '' @ tangle_granularity))))"

text \<open>
  \<^verbatim>\<open>main\<close>, given the value of the positional argument. The parser was built with
  \<^verbatim>\<open>choices=["hunk", "line"]\<close>: on any other value \<^verbatim>\<open>parse_args\<close> writes a usage
  message to standard error and exits with status 2.
\<close>

definition main :: "settings \<Rightarrow> db \<Rightarrow> string \<Rightarrow> bool \<times> unit printed" where
  "main cfg d arg =
     (if arg \<notin> set [''hunk'', ''line''] then (False, [], Inl (SystemExit 2))
      else
        (case find_tangled_commits cfg d arg of
           (connected, out, Inl e) \<Rightarrow> (connected, out, Inl e)
         | (connected, out, Inr tangled_commits) \<Rightarrow>
             (connected,
              out @ map (\<lambda>(project, commit_hash). project @ '' '' @ commit_hash) tangled_commits,
              Inr ())))"

section \<open>list\_tangled\_lines.py\<close>

text \<open>\<^verbatim>\<open>str\<close> of an integer, as an f-string shows it.\<close>

function str_nat :: "nat \<Rightarrow> string" where
  "str_nat n =
     (if n < 10 then [''0123456789'' ! n]
      else str_nat (n div 10) @ [''0123456789'' ! (n mod 10)])"
  by pat_completeness auto
termination
  by (relation "measure id") auto

definition str_int :: "int \<Rightarrow> string" where
  "str_int i = (if i < 0 then CHR ''-'' # str_nat (nat (- i)) else str_nat (nat i))"

text \<open>
  This script's \<^verbatim>\<open>has_tangled_lines\<close> prints one line for every offset it visits and
  an empty line after every hunk, so the printed lines are threaded through the loops.
\<close>

fun ltl_offsets_loop ::
  "string \<Rightarrow> string list \<Rightarrow> label \<Rightarrow> int list \<Rightarrow> defaultlist \<times> string list
     \<Rightarrow> (defaultlist \<times> string list) ctl" where
  "ltl_offsets_loop commit_hash hunk_content_by_line label [] st = Continue st"
| "ltl_offsets_loop commit_hash hunk_content_by_line label (i # rest) (line_labels, out) =
     (case dl_getitem line_labels i of
        Inl e \<Rightarrow> Raise out e
      | Inr (v0, line_labels0) \<Rightarrow>
          (let out1 = out @ [''Line '' @ str_int i @ '' has label '' @ label
                               @ '', content: '' @ str_entry v0]
           in case dl_getitem line_labels0 i of
                Inl e \<Rightarrow> Raise out1 e
              | Inr (v, line_labels1) \<Rightarrow>
                  if truthy v then
                    (case list_getitem hunk_content_by_line i of
                       Inl e \<Rightarrow> Raise out1 e
                     | Inr text \<Rightarrow>
                         (let out2 = out1 @ [''Tangled line in '' @ commit_hash @ '': '' @ text]
                          in case dl_getitem line_labels1 i of
                               Inl e \<Rightarrow> Raise out2 e
                             | Inr (v2, line_labels2) \<Rightarrow>
                                 Return
                                   (out2 @ [''Found label '' @ str_entry v2 @ '' and '' @ label])
                                   True))
                  else
                    (case dl_setitem line_labels1 i label of
                       Inl e \<Rightarrow> Raise out1 e
                     | Inr line_labels2 \<Rightarrow>
                         ltl_offsets_loop commit_hash hunk_content_by_line label rest
                           (line_labels2, out1))))"

fun ltl_labels_loop ::
  "string \<Rightarrow> string list \<Rightarrow> (label \<times> int list) list \<Rightarrow> defaultlist \<times> string list
     \<Rightarrow> (defaultlist \<times> string list) ctl" where
  "ltl_labels_loop commit_hash hunk_content_by_line [] st = Continue st"
| "ltl_labels_loop commit_hash hunk_content_by_line ((label, offset_line_numbers) # items) st =
     (case ltl_offsets_loop commit_hash hunk_content_by_line label offset_line_numbers st of
        Continue st1 \<Rightarrow> ltl_labels_loop commit_hash hunk_content_by_line items st1
      | Return out b \<Rightarrow> Return out b
      | Raise out e \<Rightarrow> Raise out e)"

fun ltl_hunks_loop :: "hunk list \<Rightarrow> string \<Rightarrow> string list \<Rightarrow> bool printed" where
  "ltl_hunks_loop [] commit_hash out = (out, Inr False)"
| "ltl_hunks_loop (hunk # hunks) commit_hash out =
     (let hunk_content_by_line = splitlines (content hunk);
          line_labels = []
      in case ltl_labels_loop commit_hash hunk_content_by_line (lines_verified hunk)
                (line_labels, out) of
           Continue (uu, out1) \<Rightarrow> ltl_hunks_loop hunks commit_hash (out1 @ [[]])
         | Return out1 b \<Rightarrow> (out1, Inr b)
         | Raise out1 e \<Rightarrow> (out1, Inl e))"

definition ltl_has_tangled_lines :: "hunk list \<Rightarrow> string \<Rightarrow> bool printed" where
  "ltl_has_tangled_lines hunks commit_hash = ltl_hunks_loop hunks commit_hash []"

text \<open>
  The file of a file action, as the body of the loop in \<^verbatim>\<open>is_tangled\<close> finds it
  (the statements from \<^verbatim>\<open>file = None\<close> to the second \<^verbatim>\<open>File.objects(...).get()\<close>).
\<close>

definition ltl_changed_file :: "db \<Rightarrow> file_action \<Rightarrow> py_error + File" where
  "ltl_changed_file d fa =
     (case (if old_file_id fa \<noteq> None
            then (case File_get d (old_file_id fa) of Inl e \<Rightarrow> Inl e | Inr f \<Rightarrow> Inr (Some f))
            else Inr None) of
        Inl e \<Rightarrow> Inl e
      | Inr None \<Rightarrow> File_get d (file_id fa)
      | Inr (Some f) \<Rightarrow> if mode fa = ''R'' then File_get d (file_id fa) else Inr f)"

text \<open>The condition of \<^verbatim>\<open>is_tangled\<close> under which a file is skipped, negated.\<close>

definition ltl_in_scope :: "File \<Rightarrow> bool" where
  "ltl_in_scope file \<longleftrightarrow>
     \<not> (\<not> endswith (path file) ''.java''
        \<or> endswith (path file) ''Test.java''
        \<or> str_contains (path file) ''src/test'')"

fun ltl_file_actions_loop :: "db \<Rightarrow> commit \<Rightarrow> file_action list \<Rightarrow> bool option printed" where
  "ltl_file_actions_loop d commit [] = ([], Inr None)"
| "ltl_file_actions_loop d commit (fa # fas) =
     (case ltl_changed_file d fa of
        Inl e \<Rightarrow> ([], Inl e)
      | Inr file \<Rightarrow>
          if \<not> ltl_in_scope file then ltl_file_actions_loop d commit fas
          else
            (case ltl_has_tangled_lines
                    (filter (\<lambda>h. hunk_file_action_id h = file_action_id fa) (Hunk_objects d))
                    (revision_hash commit) of
               (out, Inl e) \<Rightarrow> (out, Inl e)
             | (out, Inr b) \<Rightarrow> (out, Inr (Some b))))"

definition ltl_is_tangled :: "db \<Rightarrow> commit \<Rightarrow> bool option printed" where
  "ltl_is_tangled d commit =
     (if (case labels commit of
            None \<Rightarrow> False
          | Some ls \<Rightarrow>
              (case map_of ls ''validated_bugfix'' of None \<Rightarrow> False | Some v \<Rightarrow> v)
              \<and> length (parents commit) = 1)
      then ltl_file_actions_loop d commit
             (filter (\<lambda>fa. fa_commit_id fa = commit_id commit) (FileAction_objects d))
      else ([], Inr (Some False)))"

section \<open>The line scan seen as a map from offsets to labels\<close>

text \<open>
  For offsets that are not negative, \<open>line_labels\<close> is a map from offsets to labels:
  the entry at an offset, or \<^verbatim>\<open>None\<close> beyond the end of the list.
\<close>

definition owner :: "defaultlist \<Rightarrow> nat \<Rightarrow> label option" where
  "owner xs j = (if j < length xs then xs ! j else None)"

text \<open>
  The first offset of a list of (label, offset) pairs that meets a true entry, with that
  entry and the label that met it; and the map left when there is none.
\<close>

fun collision ::
  "(nat \<Rightarrow> label option) \<Rightarrow> (label \<times> int) list \<Rightarrow> (label option \<times> label \<times> int) option" where
  "collision own [] = None"
| "collision own ((l, i) # ps) =
     (if truthy (own (nat i)) then Some (own (nat i), l, i)
      else collision (own(nat i := Some l)) ps)"

fun final_owner ::
  "(nat \<Rightarrow> label option) \<Rightarrow> (label \<times> int) list \<Rightarrow> nat \<Rightarrow> label option" where
  "final_owner own [] = own"
| "final_owner own ((l, i) # ps) = final_owner (own(nat i := Some l)) ps"

text \<open>What the loop does at such an offset: it reads the line, prints and returns.\<close>

definition collision_outcome ::
  "string \<Rightarrow> string list \<Rightarrow> label option \<times> label \<times> int \<Rightarrow> defaultlist ctl" where
  "collision_outcome commit_hash ls c =
     (case c of (a, b, i) \<Rightarrow>
        if nat i < length ls
        then Return [''Tangled line in '' @ commit_hash @ '': '' @ ls ! nat i,
                     ''Found label '' @ str_entry a @ '' and '' @ b] True
        else Raise [] IndexError)"

text \<open>The (label, offset) pairs of a hunk in the order in which the loops visit them.\<close>

definition offset_pairs :: "(label \<times> int list) list \<Rightarrow> (label \<times> int) list" where
  "offset_pairs lv = concat (map (\<lambda>(l, offs). map (Pair l) offs) lv)"

text \<open>
  The printed lines of \<^verbatim>\<open>list_tangled_lines.py\<close> are those of
  \<^verbatim>\<open>list_tangled_commits.py\<close> behind the lines it prints for every offset it visits:
  \<open>with_debug out dbg r\<close> is the outcome \<open>r\<close> of the second script's loop with the
  lines \<open>out\<close> printed earlier and the lines \<open>dbg\<close> of the first script put in front.
\<close>

definition with_debug :: "string list \<Rightarrow> string list \<Rightarrow> defaultlist ctl \<Rightarrow> (defaultlist \<times> string list) ctl" where
  "with_debug out dbg r =
     (case r of
        Continue ys \<Rightarrow> Continue (ys, out @ dbg)
      | Return rep b \<Rightarrow> Return (out @ dbg @ rep) b
      | Raise rep e \<Rightarrow> Raise (out @ dbg @ rep) e)"

section \<open>A small data set\<close>

text \<open>
  One project with five commits. Commit 10 is a validated bug fix with one parent whose
  first file action is on a test file and whose second is on a source file with a line
  given two labels. Commit 11 is a validated bug fix that touches only a test file and a
  deleted text file. Commits 12, 13 and 14 are not eligible: not a validated bug fix, a
  merge, and a commit without labels. Commit 15 renames \<^verbatim>\<open>A.java\<close> to \<^verbatim>\<open>B.java\<close>.
\<close>

definition ex_settings :: settings where
  "ex_settings =
     \<lparr>PROJECTS = [''commons-lang''],
      LINE_LABELS_CODE = [''bugfix'', ''refactoring'', ''unrelated''],
      LINE_LABELS_CODE_FIX = [''bugfix''],
      LINE_LABELS_CODE_NO_FIX = [''refactoring'', ''unrelated'']\<rparr>"

definition ex_commit :: "oid \<Rightarrow> (string \<times> bool) list option \<Rightarrow> string list \<Rightarrow> commit" where
  "ex_commit i ls ps =
     \<lparr>commit_id = i, commit_vcs_system_id = 1, revision_hash = ''c'' @ replicate i CHR ''0'',
      labels = ls, parents = ps\<rparr>"

definition ex_db :: db where
  "ex_db =
     \<lparr>Project_objects = [\<lparr>project_id = 1, name = ''commons-lang''\<rparr>],
      VCSSystem_objects = [\<lparr>vcs_system_id = 1, vcs_project_id = 1\<rparr>],
      Commit_objects =
        [ex_commit 10 (Some [(''validated_bugfix'', True)]) [''p''],
         ex_commit 11 (Some [(''validated_bugfix'', True)]) [''p''],
         ex_commit 12 (Some [(''validated_bugfix'', False)]) [''p''],
         ex_commit 13 (Some [(''validated_bugfix'', True)]) [''p'', ''q''],
         ex_commit 14 None [''p''],
         ex_commit 15 (Some [(''validated_bugfix'', True)]) [''p'']],
      FileAction_objects =
        [\<lparr>file_action_id = 100, fa_commit_id = 10, file_id = Some 1000, old_file_id = None,
          mode = ''M''\<rparr>,
         \<lparr>file_action_id = 101, fa_commit_id = 10, file_id = Some 1001, old_file_id = None,
          mode = ''M''\<rparr>,
         \<lparr>file_action_id = 102, fa_commit_id = 10, file_id = Some 1002, old_file_id = None,
          mode = ''M''\<rparr>,
         \<lparr>file_action_id = 110, fa_commit_id = 11, file_id = Some 1000, old_file_id = None,
          mode = ''M''\<rparr>,
         \<lparr>file_action_id = 111, fa_commit_id = 11, file_id = None, old_file_id = Some 1003,
          mode = ''D''\<rparr>,
         \<lparr>file_action_id = 150, fa_commit_id = 15, file_id = Some 1005, old_file_id = Some 1004,
          mode = ''R''\<rparr>],
      File_objects =
        [\<lparr>file_oid = 1000, path = ''src/test/java/org/FooTest.java''\<rparr>,
         \<lparr>file_oid = 1001, path = ''src/main/java/org/Foo.java''\<rparr>,
         \<lparr>file_oid = 1002, path = ''src/main/java/org/Bar.java''\<rparr>,
         \<lparr>file_oid = 1003, path = ''NOTICE.txt''\<rparr>,
         \<lparr>file_oid = 1004, path = ''src/main/java/org/A.java''\<rparr>,
         \<lparr>file_oid = 1005, path = ''src/main/java/org/B.java''\<rparr>],
      Hunk_objects =
        [\<lparr>hunk_file_action_id = 100, content = ''x'',
          lines_verified = [(''test'', [0])]\<rparr>,
         \<lparr>hunk_file_action_id = 101, content = ''a'' @ [CHR 0x0A] @ ''b'' @ [CHR 0x0A] @ ''c'',
          lines_verified = [(''bugfix'', [0, 2]), (''documentation'', [2])]\<rparr>,
         \<lparr>hunk_file_action_id = 102, content = ''y'',
          lines_verified = [(''bugfix'', [0])]\<rparr>,
         \<lparr>hunk_file_action_id = 150, content = ''z'',
          lines_verified = [(''refactoring'', [0])]\<rparr>]\<rparr>"

section \<open>Properties of the auto-growing list and of the line scan\<close>

lemma owner_Nil: "owner [] = (\<lambda>_. None)"
  by (simp add: owner_def fun_eq_iff)

lemma length_dl_fill: "0 \<le> i \<Longrightarrow> nat i < length (dl_fill xs i)"
  by (auto simp: dl_fill_def Let_def)

lemma owner_dl_fill: "owner (dl_fill xs i) j = owner xs j"
  by (auto simp: owner_def dl_fill_def Let_def nth_append)

lemma dl_fill_idem: "dl_fill (dl_fill xs i) i = dl_fill xs i"
  by (auto simp: dl_fill_def Let_def)

lemma list_index_nonneg: "0 \<le> i \<Longrightarrow> list_index xs i = (if nat i < length xs then Some (nat i) else None)"
  by (auto simp: list_index_def Let_def)

lemma list_getitem_nonneg:
  "0 \<le> i \<Longrightarrow> list_getitem xs i = (if nat i < length xs then Inr (xs ! nat i) else Inl IndexError)"
  by (simp add: list_getitem_def list_index_nonneg)

lemma dl_getitem_nonneg: "0 \<le> i \<Longrightarrow> dl_getitem xs i = Inr (owner xs (nat i), dl_fill xs i)"
  using length_dl_fill[of i xs] owner_dl_fill[of xs i "nat i"]
  by (simp add: dl_getitem_def list_getitem_nonneg Let_def owner_def)

lemma dl_setitem_nonneg: "0 \<le> i \<Longrightarrow> dl_setitem xs i l = Inr ((dl_fill xs i)[nat i := Some l])"
  using length_dl_fill[of i xs]
  by (simp add: dl_setitem_def list_setitem_def list_index_nonneg dl_fill_idem)

lemma owner_list_update:
  "j < length ys \<Longrightarrow> owner (ys[j := v]) = (owner ys)(j := v)"
  by (auto simp: owner_def fun_eq_iff)

lemma owner_update:
  "0 \<le> i \<Longrightarrow> owner ((dl_fill xs i)[nat i := Some l]) = (owner xs)(nat i := Some l)"
  using length_dl_fill[of i xs] owner_dl_fill[of xs i]
  by (simp add: owner_list_update fun_eq_iff)

lemma offsets_loop_collision:
  "\<forall>i\<in>set offs. 0 \<le> i \<Longrightarrow>
   (case collision (owner xs) (map (Pair l) offs) of
      Some c \<Rightarrow> offsets_loop h ls l offs xs = collision_outcome h ls c
    | None \<Rightarrow> (\<exists>ys. offsets_loop h ls l offs xs = Continue ys
                 \<and> owner ys = final_owner (owner xs) (map (Pair l) offs)))"
proof (induction offs arbitrary: xs)
  case Nil
  then show ?case by simp
next
  case (Cons i offs)
  then have i: "0 \<le> i" and rest: "\<forall>i\<in>set offs. 0 \<le> i" by simp_all
  show ?case
  proof (cases "truthy (owner xs (nat i))")
    case True
    then show ?thesis
      using i by (simp add: dl_getitem_nonneg list_getitem_nonneg owner_dl_fill collision_outcome_def)
  next
    case False
    let ?ys = "(dl_fill xs i)[nat i := Some l]"
    have step: "offsets_loop h ls l (i # offs) xs = offsets_loop h ls l offs ?ys"
      using i False by (simp add: dl_getitem_nonneg dl_setitem_nonneg dl_fill_idem)
    have own: "owner ?ys = (owner xs)(nat i := Some l)"
      using i by (rule owner_update)
    show ?thesis
      using Cons.IH[OF rest, where xs="?ys"] False unfolding step own by (simp del: fun_upd_apply split: option.splits)
  qed
qed

lemma collision_append:
  "collision own (ps @ qs) =
     (case collision own ps of Some c \<Rightarrow> Some c | None \<Rightarrow> collision (final_owner own ps) qs)"
  by (induction own ps rule: collision.induct) (simp_all del: fun_upd_apply split: option.splits)

lemma final_owner_append:
  "final_owner own (ps @ qs) = final_owner (final_owner own ps) qs"
  by (induction own ps rule: final_owner.induct) (simp_all del: fun_upd_apply)

lemma labels_loop_collision:
  "\<forall>(l, offs)\<in>set lv. \<forall>i\<in>set offs. 0 \<le> i \<Longrightarrow>
   (case collision (owner xs) (offset_pairs lv) of
      Some c \<Rightarrow> labels_loop h ls lv xs = collision_outcome h ls c
    | None \<Rightarrow> (\<exists>ys. labels_loop h ls lv xs = Continue ys
                 \<and> owner ys = final_owner (owner xs) (offset_pairs lv)))"
proof (induction lv arbitrary: xs)
  case Nil
  then show ?case by (simp add: offset_pairs_def)
next
  case (Cons item lv)
  obtain l offs where item: "item = (l, offs)" by (cases item)
  from Cons.prems item have offs: "\<forall>i\<in>set offs. 0 \<le> i"
    and rest: "\<forall>(l, offs)\<in>set lv. \<forall>i\<in>set offs. 0 \<le> i" by auto
  have pairs: "offset_pairs ((l, offs) # lv) = map (Pair l) offs @ offset_pairs lv"
    by (simp add: offset_pairs_def)
  show ?case
  proof (cases "collision (owner xs) (map (Pair l) offs)")
    case (Some c)
    with offsets_loop_collision[OF offs, where xs=xs and l=l and h=h and ls=ls]
    have "offsets_loop h ls l offs xs = collision_outcome h ls c" by simp
    then show ?thesis
      unfolding item pairs collision_append Some
      by (cases c) (simp add: collision_outcome_def)
  next
    case None
    with offsets_loop_collision[OF offs, where xs=xs and l=l and h=h and ls=ls]
    obtain ys where ys: "offsets_loop h ls l offs xs = Continue ys"
      and own: "owner ys = final_owner (owner xs) (map (Pair l) offs)" by auto
    show ?thesis
      using Cons.IH[OF rest, where xs=ys]
      unfolding item pairs collision_append final_owner_append None
      by (simp add: ys own split: option.splits)
  qed
qed

lemma has_tangled_lines_Cons:
  assumes "\<forall>(l, offs)\<in>set (lines_verified hunk). \<forall>i\<in>set offs. 0 \<le> i"
  shows "has_tangled_lines (hunk # hunks) h =
     (case collision (\<lambda>_. None) (offset_pairs (lines_verified hunk)) of
        None \<Rightarrow> has_tangled_lines hunks h
      | Some c \<Rightarrow>
          (case collision_outcome h (splitlines (content hunk)) c of
             Continue _ \<Rightarrow> has_tangled_lines hunks h
           | Return out b \<Rightarrow> (out, Inr b)
           | Raise out e \<Rightarrow> (out, Inl e)))"
  using labels_loop_collision[OF assms, where xs="[]" and h=h and ls="splitlines (content hunk)"]
  by (auto simp: owner_Nil split: option.splits)

lemma set_offset_pairs:
  "set (offset_pairs lv) = {(l, i). \<exists>offs. (l, offs) \<in> set lv \<and> i \<in> set offs}"
  by (auto simp: offset_pairs_def)

lemma distinct_offset_pairs:
  "distinct (map fst lv) \<Longrightarrow> \<forall>(l, offs)\<in>set lv. distinct offs \<Longrightarrow> distinct (offset_pairs lv)"
proof (induction lv)
  case Nil
  then show ?case by (simp add: offset_pairs_def)
next
  case (Cons item lv)
  obtain l offs where item: "item = (l, offs)" by (cases item)
  have pairs: "offset_pairs ((l, offs) # lv) = map (Pair l) offs @ offset_pairs lv"
    by (simp add: offset_pairs_def)
  have "distinct (map (Pair l) offs)"
    using Cons.prems(2) item by (simp add: distinct_map inj_on_def)
  moreover have "distinct (offset_pairs lv)"
    using Cons by simp
  moreover have "set (map (Pair l) offs) \<inter> set (offset_pairs lv) = {}"
    using Cons.prems(1) item by (force simp: set_offset_pairs)
  ultimately show ?case
    unfolding item pairs by simp
qed

lemma final_owner_origin:
  "final_owner own ps j = Some a \<Longrightarrow> own j = Some a \<or> (\<exists>i. (a, i) \<in> set ps \<and> nat i = j)"
proof (induction own ps rule: final_owner.induct)
  case (1 own)
  then show ?case by simp
next
  case (2 own l i ps)
  from 2 have "(own(nat i := Some l)) j = Some a \<or> (\<exists>i. (a, i) \<in> set ps \<and> nat i = j)"
    by (simp del: fun_upd_apply)
  then show ?case by (auto split: if_splits)
qed

lemma collision_SomeD:
  "collision own ps = Some (a, b, i) \<Longrightarrow>
   truthy a \<and> (\<exists>pre post. ps = pre @ (b, i) # post \<and> collision own pre = None
                 \<and> a = final_owner own pre (nat i))"
proof (induction own ps rule: collision.induct)
  case (1 own)
  then show ?case by simp
next
  case (2 own l j ps)
  show ?case
  proof (cases "truthy (own (nat j))")
    case True
    with "2.prems" have eqs: "a = own (nat j)" "b = l" "i = j" by auto
    have "(l, j) # ps = [] @ (b, i) # ps" using eqs by simp
    moreover have "collision own [] = None" by simp
    moreover have "a = final_owner own [] (nat i)" using eqs by simp
    moreover have "truthy a" using True eqs by simp
    ultimately show ?thesis by blast
  next
    case False
    with 2 have "collision (own(nat j := Some l)) ps = Some (a, b, i)" by (simp del: fun_upd_apply)
    from "2.IH"[OF False this] obtain pre post where
      t: "truthy a" and ps: "ps = pre @ (b, i) # post"
      and c: "collision (own(nat j := Some l)) pre = None"
      and a: "a = final_owner (own(nat j := Some l)) pre (nat i)" by blast
    have "(l, j) # ps = ((l, j) # pre) @ (b, i) # post" using ps by simp
    moreover have "collision own ((l, j) # pre) = None" using c False by (simp del: fun_upd_apply)
    moreover have "a = final_owner own ((l, j) # pre) (nat i)" using a by (simp del: fun_upd_apply)
    ultimately show ?thesis using t by blast
  qed
qed

lemma collision_NoneD:
  "collision own ps = None \<Longrightarrow> \<forall>(l, i)\<in>set ps. l \<noteq> [] \<Longrightarrow>
   distinct (map (\<lambda>p. nat (snd p)) ps) \<and> (\<forall>(l, i)\<in>set ps. \<not> truthy (own (nat i)))"
proof (induction own ps rule: collision.induct)
  case (1 own)
  then show ?case by simp
next
  case (2 own l j ps)
  from "2.prems" have nt: "\<not> truthy (own (nat j))"
    by (auto split: if_splits)
  with "2.prems" have c: "collision (own(nat j := Some l)) ps = None"
    by (simp del: fun_upd_apply)
  from "2.prems" have l: "l \<noteq> []" and rest: "\<forall>(l, i)\<in>set ps. l \<noteq> []" by simp_all
  from "2.IH"[OF nt c rest] have d: "distinct (map (\<lambda>p. nat (snd p)) ps)"
    and u: "\<forall>(l', i)\<in>set ps. \<not> truthy ((own(nat j := Some l)) (nat i))" by blast+
  from u l have "\<forall>(l', i)\<in>set ps. nat i \<noteq> nat j \<and> \<not> truthy (own (nat i))"
    by (auto split: if_splits)
  with d nt show ?case by (auto simp: image_iff)
qed

lemma collision_from_empty:
  assumes nonneg: "\<forall>(l, i)\<in>set ps. 0 \<le> i"
    and c: "collision (\<lambda>_. None) ps = Some (a0, b, i)"
  shows "\<exists>a pre post. a0 = Some a \<and> a \<noteq> [] \<and> ps = pre @ (b, i) # post \<and> (a, i) \<in> set pre"
proof -
  from collision_SomeD[OF c] obtain pre post where
    t: "truthy a0" and ps: "ps = pre @ (b, i) # post"
    and a0: "a0 = final_owner (\<lambda>_. None) pre (nat i)" by blast
  from t obtain a where a: "a0 = Some a" "a \<noteq> []" by (cases a0) auto
  from a0 a have "final_owner (\<lambda>_. None) pre (nat i) = Some a" by simp
  from final_owner_origin[OF this] obtain i' where i': "(a, i') \<in> set pre" "nat i' = nat i"
    by auto
  from nonneg ps i' have "0 \<le> i'" "0 \<le> i" by auto
  with i' have "i' = i" by simp
  with i' a ps show ?thesis by blast
qed

lemma offset_pairs_nonneg:
  "\<forall>(l, offs)\<in>set lv. \<forall>i\<in>set offs. 0 \<le> i \<Longrightarrow> \<forall>(l, i)\<in>set (offset_pairs lv). 0 \<le> i"
  by (auto simp: set_offset_pairs)

subsection \<open>The two scripts scan lines alike\<close>

lemma dl_getitem_idem: "dl_getitem xs i = Inr (v, ys) \<Longrightarrow> dl_getitem ys i = Inr (v, ys)"
  by (auto simp: dl_getitem_def Let_def dl_fill_idem split: sum.splits)

lemma with_debug_shift: "with_debug (out @ a) dbg r = with_debug out (a @ dbg) r"
  by (simp add: with_debug_def split: ctl.splits)

lemma ltl_offsets_loop_sim:
  "\<exists>dbg. ltl_offsets_loop h ls l offs (xs, out) = with_debug out dbg (offsets_loop h ls l offs xs)"
proof (induction offs arbitrary: xs out)
  case Nil
  have "ltl_offsets_loop h ls l [] (xs, out) = with_debug out [] (offsets_loop h ls l [] xs)"
    by (simp add: with_debug_def)
  then show ?case by blast
next
  case (Cons i offs)
  let ?line = "''Line '' @ str_int i @ '' has label '' @ l @ '', content: ''"
  show ?case
  proof (cases "dl_getitem xs i")
    case (Inl e)
    then have "ltl_offsets_loop h ls l (i # offs) (xs, out)
                 = with_debug out [] (offsets_loop h ls l (i # offs) xs)"
      by (simp add: with_debug_def)
    then show ?thesis by blast
  next
    case (Inr p)
    obtain v ys where p: "p = (v, ys)" by (cases p)
    note g = Inr[unfolded p]
    note g2 = dl_getitem_idem[OF g]
    show ?thesis
    proof (cases "truthy v")
      case True
      then have "ltl_offsets_loop h ls l (i # offs) (xs, out)
                   = with_debug out [?line @ str_entry v] (offsets_loop h ls l (i # offs) xs)"
        using g g2 by (simp add: with_debug_def split: sum.splits)
      then show ?thesis by blast
    next
      case False
      show ?thesis
      proof (cases "dl_setitem ys i l")
        case (Inl e)
        then have "ltl_offsets_loop h ls l (i # offs) (xs, out)
                   = with_debug out [?line @ str_entry v] (offsets_loop h ls l (i # offs) xs)"
          using g g2 False by (simp add: with_debug_def)
        then show ?thesis by blast
      next
        case (Inr zs)
        from Cons.IH[of zs "out @ [?line @ str_entry v]"] obtain dbg where
          d: "ltl_offsets_loop h ls l offs (zs, out @ [?line @ str_entry v])
                = with_debug (out @ [?line @ str_entry v]) dbg (offsets_loop h ls l offs zs)"
          by blast
        have "ltl_offsets_loop h ls l (i # offs) (xs, out)
                = with_debug out ([?line @ str_entry v] @ dbg) (offsets_loop h ls l (i # offs) xs)"
          using g g2 False Inr d by (simp add: with_debug_shift)
        then show ?thesis by blast
      qed
    qed
  qed
qed

lemma ltl_labels_loop_sim:
  "\<exists>dbg. ltl_labels_loop h ls lv (xs, out) = with_debug out dbg (labels_loop h ls lv xs)"
proof (induction lv arbitrary: xs out)
  case Nil
  have "ltl_labels_loop h ls [] (xs, out) = with_debug out [] (labels_loop h ls [] xs)"
    by (simp add: with_debug_def)
  then show ?case by blast
next
  case (Cons item lv)
  obtain l offs where item: "item = (l, offs)" by (cases item)
  obtain d1 where d1: "ltl_offsets_loop h ls l offs (xs, out)
                         = with_debug out d1 (offsets_loop h ls l offs xs)"
    using ltl_offsets_loop_sim by blast
  show ?case
  proof (cases "offsets_loop h ls l offs xs")
    case (Continue ys)
    from Cons.IH[of ys "out @ d1"] obtain d2 where
      d2: "ltl_labels_loop h ls lv (ys, out @ d1) = with_debug (out @ d1) d2 (labels_loop h ls lv ys)"
      by blast
    have "ltl_labels_loop h ls (item # lv) (xs, out)
            = with_debug out (d1 @ d2) (labels_loop h ls (item # lv) xs)"
      using d1 d2 Continue by (simp add: item with_debug_def with_debug_shift split: ctl.splits)
    then show ?thesis by blast
  next
    case (Return rep b)
    then have "ltl_labels_loop h ls (item # lv) (xs, out)
            = with_debug out d1 (labels_loop h ls (item # lv) xs)"
      using d1 by (simp add: item with_debug_def)
    then show ?thesis by blast
  next
    case (Raise rep e)
    then have "ltl_labels_loop h ls (item # lv) (xs, out)
            = with_debug out d1 (labels_loop h ls (item # lv) xs)"
      using d1 by (simp add: item with_debug_def)
    then show ?thesis by blast
  qed
qed

lemma ltl_hunks_loop_sim:
  "\<exists>dbg. ltl_hunks_loop hunks h out
           = (out @ dbg @ fst (has_tangled_lines hunks h), snd (has_tangled_lines hunks h))"
proof (induction hunks arbitrary: out)
  case Nil
  show ?case by simp
next
  case (Cons hunk hunks)
  obtain d1 where d1: "ltl_labels_loop h (splitlines (content hunk)) (lines_verified hunk) ([], out)
        = with_debug out d1 (labels_loop h (splitlines (content hunk)) (lines_verified hunk) [])"
    using ltl_labels_loop_sim by blast
  show ?case
  proof (cases "labels_loop h (splitlines (content hunk)) (lines_verified hunk) []")
    case (Continue ys)
    from Cons.IH[of "out @ d1 @ [[]]"] obtain d2 where
      d2: "ltl_hunks_loop hunks h (out @ d1 @ [[]])
            = ((out @ d1 @ [[]]) @ d2 @ fst (has_tangled_lines hunks h),
               snd (has_tangled_lines hunks h))"
      by blast
    have "ltl_hunks_loop (hunk # hunks) h out
           = (out @ (d1 @ [[]] @ d2) @ fst (has_tangled_lines (hunk # hunks) h),
              snd (has_tangled_lines (hunk # hunks) h))"
      using d1 d2 Continue by (simp add: with_debug_def)
    then show ?thesis by blast
  next
    case (Return rep b)
    then have "ltl_hunks_loop (hunk # hunks) h out
           = (out @ d1 @ fst (has_tangled_lines (hunk # hunks) h),
              snd (has_tangled_lines (hunk # hunks) h))"
      using d1 by (simp add: with_debug_def)
    then show ?thesis by blast
  next
    case (Raise rep e)
    then have "ltl_hunks_loop (hunk # hunks) h out
           = (out @ d1 @ fst (has_tangled_lines (hunk # hunks) h),
              snd (has_tangled_lines (hunk # hunks) h))"
      using d1 by (simp add: with_debug_def)
    then show ?thesis by blast
  qed
qed

lemma ltl_has_tangled_lines_sim:
  "\<exists>dbg. ltl_has_tangled_lines hunks h
           = (dbg @ fst (has_tangled_lines hunks h), snd (has_tangled_lines hunks h))"
  using ltl_hunks_loop_sim[of hunks h "[]"] by (simp add: ltl_has_tangled_lines_def)

subsection \<open>Evaluation on given data\<close>

lemmas str_eval = endswith_def str_contains_def suffix_to_prefix sublist_Cons_right
  is_java_file_def is_test_file_def ltl_in_scope_def

lemmas db_eval = ex_db_def ex_commit_def File_get_def get_changed_file_def ltl_changed_file_def

lemmas line_eval = splitlines_def dl_getitem_def dl_setitem_def dl_fill_def list_getitem_def
  list_setitem_def list_index_def is_line_boundary_def Let_def

section \<open>Hunk granularity: the categories seen\<close>


lemma seen_loop_iff:
  assumes "seen = {} \<or> seen = {''fix''} \<or> seen = {''nofix''}"
  shows "seen_loop cfg items seen \<longleftrightarrow>
     (''fix'' \<in> seen \<or> (\<exists>l\<in>fst ` set items.
          l \<in> set (LINE_LABELS_CODE cfg) \<and> l \<in> set (LINE_LABELS_CODE_FIX cfg)))
     \<and> (''nofix'' \<in> seen \<or> (\<exists>l\<in>fst ` set items.
          l \<in> set (LINE_LABELS_CODE cfg) \<and> l \<notin> set (LINE_LABELS_CODE_FIX cfg)
          \<and> l \<in> set (LINE_LABELS_CODE_NO_FIX cfg)))"
  using assms
proof (induction items arbitrary: seen)
  case Nil
  then show ?case by auto
next
  case (Cons item items)
  obtain l offs where item: "item = (l, offs)" by (cases item)
  show ?case
  proof (cases "l \<in> set (LINE_LABELS_CODE cfg)")
    case False
    then show ?thesis using Cons.IH[OF Cons.prems] by (auto simp: item)
  next
    case code: True
    show ?thesis
    proof (cases "l \<in> set (LINE_LABELS_CODE_FIX cfg)")
      case True
      show ?thesis
      proof (cases "seen = {''nofix''}")
        case True
        with code \<open>l \<in> set (LINE_LABELS_CODE_FIX cfg)\<close> show ?thesis
          by (simp add: item insert_commute Let_def)
      next
        case False
        with Cons.prems have s: "insert ''fix'' seen = {''fix''}" by auto
        have step: "seen_loop cfg (item # items) seen =
            (if card (insert ''fix'' seen) = 2 then True
             else seen_loop cfg items (insert ''fix'' seen))"
          using code True by (simp add: item Let_def)
        have "seen_loop cfg (item # items) seen = seen_loop cfg items {''fix''}"
          unfolding step s by simp
        also have "\<dots> \<longleftrightarrow> (\<exists>l\<in>fst ` set items.
          l \<in> set (LINE_LABELS_CODE cfg) \<and> l \<notin> set (LINE_LABELS_CODE_FIX cfg)
          \<and> l \<in> set (LINE_LABELS_CODE_NO_FIX cfg))"
          using Cons.IH[of "{''fix''}"] by simp
        finally show ?thesis using code True False Cons.prems by (auto simp: item)
      qed
    next
      case nofix: False
      show ?thesis
      proof (cases "l \<in> set (LINE_LABELS_CODE_NO_FIX cfg)")
        case True
        show ?thesis
        proof (cases "seen = {''fix''}")
          case True
          with code nofix \<open>l \<in> set (LINE_LABELS_CODE_NO_FIX cfg)\<close> show ?thesis
            by (simp add: item insert_commute Let_def)
        next
          case False
          with Cons.prems have s: "insert ''nofix'' seen = {''nofix''}" by auto
          have step: "seen_loop cfg (item # items) seen =
              (if card (insert ''nofix'' seen) = 2 then True
               else seen_loop cfg items (insert ''nofix'' seen))"
            using code True nofix by (simp add: item Let_def)
          have "seen_loop cfg (item # items) seen = seen_loop cfg items {''nofix''}"
            unfolding step s by simp
          also have "\<dots> \<longleftrightarrow> (\<exists>l\<in>fst ` set items.
            l \<in> set (LINE_LABELS_CODE cfg) \<and> l \<in> set (LINE_LABELS_CODE_FIX cfg))"
            using Cons.IH[of "{''nofix''}"] by simp
          finally show ?thesis using code True nofix False Cons.prems by (auto simp: item)
        qed
      next
        case False
        have c: "card seen \<noteq> 2" using Cons.prems by auto
        have "seen_loop cfg (item # items) seen = seen_loop cfg items seen"
          using code nofix False c by (simp add: item Let_def)
        then show ?thesis using Cons.IH[OF Cons.prems] code nofix False by (auto simp: item)
      qed
    qed
  qed
qed

lemma has_tangled_hunks_iff_ex:
  "has_tangled_hunks cfg hunks h \<longleftrightarrow> (\<exists>hunk\<in>set hunks. seen_loop cfg (lines_verified hunk) {})"
  by (induction hunks) auto

text \<open>
  C2. With the label sets of the data model (the fix and the no-fix labels are code
  labels, and no label is both), \<open>has_tangled_hunks\<close> on one hunk returns true exactly
  when the keys of \<open>lines_verified\<close> hold a fix label and a no-fix label. The offsets
  play no part, and labels outside the two sets change nothing.
\<close>

theorem has_tangled_hunks_iff_both_categories:
  assumes "set (LINE_LABELS_CODE_FIX cfg) \<union> set (LINE_LABELS_CODE_NO_FIX cfg)
             \<subseteq> set (LINE_LABELS_CODE cfg)"
    and "set (LINE_LABELS_CODE_FIX cfg) \<inter> set (LINE_LABELS_CODE_NO_FIX cfg) = {}"
  shows "has_tangled_hunks cfg [hunk] commit_hash \<longleftrightarrow>
           (\<exists>l\<in>fst ` set (lines_verified hunk). l \<in> set (LINE_LABELS_CODE_FIX cfg))
         \<and> (\<exists>l\<in>fst ` set (lines_verified hunk). l \<in> set (LINE_LABELS_CODE_NO_FIX cfg))"
proof -
  have "has_tangled_hunks cfg [hunk] commit_hash = seen_loop cfg (lines_verified hunk) {}"
    by simp
  also have "\<dots> \<longleftrightarrow>
      (\<exists>l\<in>fst ` set (lines_verified hunk).
          l \<in> set (LINE_LABELS_CODE cfg) \<and> l \<in> set (LINE_LABELS_CODE_FIX cfg))
    \<and> (\<exists>l\<in>fst ` set (lines_verified hunk).
          l \<in> set (LINE_LABELS_CODE cfg) \<and> l \<notin> set (LINE_LABELS_CODE_FIX cfg)
          \<and> l \<in> set (LINE_LABELS_CODE_NO_FIX cfg))"
    by (subst seen_loop_iff) simp_all
  also have "\<dots> \<longleftrightarrow>
           (\<exists>l\<in>fst ` set (lines_verified hunk). l \<in> set (LINE_LABELS_CODE_FIX cfg))
         \<and> (\<exists>l\<in>fst ` set (lines_verified hunk). l \<in> set (LINE_LABELS_CODE_NO_FIX cfg))"
    using assms by blast
  finally show ?thesis .
qed

theorem has_tangled_hunks_iff_both_categories_witness:
  "has_tangled_hunks
     \<lparr>PROJECTS = [''commons-lang''],
      LINE_LABELS_CODE = [''bugfix'', ''refactoring'', ''unrelated''],
      LINE_LABELS_CODE_FIX = [''bugfix''],
      LINE_LABELS_CODE_NO_FIX = [''refactoring'', ''unrelated'']\<rparr>
     [\<lparr>hunk_file_action_id = 7, content = ''a'' @ [CHR 0x0A] @ ''b'',
       lines_verified = [(''bugfix'', [0]), (''refactoring'', [1])]\<rparr>] ''c0ffee''
   \<and> \<not> has_tangled_hunks
     \<lparr>PROJECTS = [''commons-lang''],
      LINE_LABELS_CODE = [''bugfix'', ''refactoring'', ''unrelated''],
      LINE_LABELS_CODE_FIX = [''bugfix''],
      LINE_LABELS_CODE_NO_FIX = [''refactoring'', ''unrelated'']\<rparr>
     [\<lparr>hunk_file_action_id = 7, content = ''a'' @ [CHR 0x0A] @ ''b'',
       lines_verified = [(''bugfix'', [0]), (''documentation'', [0]), (''test'', [1])]\<rparr>] ''c0ffee''"
  using has_tangled_hunks_iff_both_categories
     [of "\<lparr>PROJECTS = [''commons-lang''],
           LINE_LABELS_CODE = [''bugfix'', ''refactoring'', ''unrelated''],
           LINE_LABELS_CODE_FIX = [''bugfix''],
           LINE_LABELS_CODE_NO_FIX = [''refactoring'', ''unrelated'']\<rparr>"]
  by simp

text \<open>
  C9. The categories seen are collected hunk by hunk: when no single hunk holds both a
  fix label and a no-fix label, \<open>has_tangled_hunks\<close> returns false, whatever the other
  hunks of the list hold.
\<close>

theorem has_tangled_hunks_resets_between_hunks:
  assumes "\<forall>hunk\<in>set hunks.
             \<not> ((\<exists>l\<in>fst ` set (lines_verified hunk). l \<in> set (LINE_LABELS_CODE_FIX cfg))
              \<and> (\<exists>l\<in>fst ` set (lines_verified hunk). l \<in> set (LINE_LABELS_CODE_NO_FIX cfg)))"
  shows "\<not> has_tangled_hunks cfg hunks commit_hash"
proof
  assume "has_tangled_hunks cfg hunks commit_hash"
  then obtain hunk where h: "hunk \<in> set hunks" and s: "seen_loop cfg (lines_verified hunk) {}"
    by (auto simp: has_tangled_hunks_iff_ex)
  from s have "(\<exists>l\<in>fst ` set (lines_verified hunk). l \<in> set (LINE_LABELS_CODE_FIX cfg))
     \<and> (\<exists>l\<in>fst ` set (lines_verified hunk). l \<in> set (LINE_LABELS_CODE_NO_FIX cfg))"
    by (subst (asm) seen_loop_iff) auto
  with assms h show False by blast
qed

theorem has_tangled_hunks_resets_between_hunks_witness:
  "\<not> has_tangled_hunks
     \<lparr>PROJECTS = [''commons-lang''],
      LINE_LABELS_CODE = [''bugfix'', ''refactoring'', ''unrelated''],
      LINE_LABELS_CODE_FIX = [''bugfix''],
      LINE_LABELS_CODE_NO_FIX = [''refactoring'', ''unrelated'']\<rparr>
     [\<lparr>hunk_file_action_id = 7, content = ''a'', lines_verified = [(''bugfix'', [0])]\<rparr>,
      \<lparr>hunk_file_action_id = 7, content = ''b'', lines_verified = [(''refactoring'', [0])]\<rparr>]
     ''c0ffee''"
  by (rule has_tangled_hunks_resets_between_hunks) simp

section \<open>Line granularity: two labels on one line\<close>

text \<open>
  Three runs of \<open>has_tangled_lines\<close> on a hunk in which two different labels list the
  same offset. With the shared offset beyond the three lines of the content the call
  raises \<^verbatim>\<open>IndexError\<close>, in both scripts; with the empty string as the first label it
  returns false; and with three labels on offset 0 it reports the first two in iteration
  order, though the first and the third share the offset as well.
\<close>

theorem colliding_labels_counterexample:
  "has_tangled_lines
     [\<lparr>hunk_file_action_id = 101, content = ''a'' @ [CHR 0x0A] @ ''b'' @ [CHR 0x0A] @ ''c'',
       lines_verified = [(''bugfix'', [0, 3]), (''documentation'', [3])]\<rparr>] ''c0ffee''
     = ([], Inl IndexError)
   \<and> snd (ltl_has_tangled_lines
     [\<lparr>hunk_file_action_id = 101, content = ''a'' @ [CHR 0x0A] @ ''b'' @ [CHR 0x0A] @ ''c'',
       lines_verified = [(''bugfix'', [0, 3]), (''documentation'', [3])]\<rparr>] ''c0ffee'')
     = Inl IndexError
   \<and> has_tangled_lines
     [\<lparr>hunk_file_action_id = 101, content = ''a'' @ [CHR 0x0A] @ ''b'' @ [CHR 0x0A] @ ''c'',
       lines_verified = [('''', [0]), (''documentation'', [0])]\<rparr>] ''c0ffee''
     = ([], Inr False)
   \<and> has_tangled_lines
     [\<lparr>hunk_file_action_id = 101, content = ''a'' @ [CHR 0x0A] @ ''b'' @ [CHR 0x0A] @ ''c'',
       lines_verified = [(''bugfix'', [0]), (''documentation'', [0]), (''refactoring'', [0])]\<rparr>]
     ''c0ffee''
     = ([''Tangled line in c0ffee: a'', ''Found label bugfix and documentation''], Inr True)"
  by (simp add: line_eval ltl_has_tangled_lines_def str_int_def)

text \<open>
  C1, as the scripts have it. Let the keys of \<open>lines_verified\<close> be distinct, every label
  non-empty, and the offsets of every label distinct valid indices into the lines of the
  content. If two different labels list the same offset, then \<open>has_tangled_lines\<close> of
  both scripts returns true on a list of hunks that starts with this hunk, and the last
  two lines printed name the line at an offset \<open>i\<close> and two different labels that both
  list \<open>i\<close>. When no other two labels of the hunk share an offset, these are the two
  labels given.
\<close>

theorem colliding_labels_are_reported:
  assumes keys: "distinct (map fst (lines_verified hunk))"
    and wf: "\<forall>(l, offs)\<in>set (lines_verified hunk).
               l \<noteq> [] \<and> distinct offs
               \<and> (\<forall>i\<in>set offs. 0 \<le> i \<and> i < int (length (splitlines (content hunk))))"
    and l1: "(l1, offs1) \<in> set (lines_verified hunk)"
    and l2: "(l2, offs2) \<in> set (lines_verified hunk)"
    and ne: "l1 \<noteq> l2"
    and j1: "j \<in> set offs1"
    and j2: "j \<in> set offs2"
  shows "\<exists>a b i offs_a offs_b dbg.
           has_tangled_lines (hunk # hunks) commit_hash
             = ([''Tangled line in '' @ commit_hash @ '': ''
                   @ splitlines (content hunk) ! nat i,
                 ''Found label '' @ a @ '' and '' @ b], Inr True)
         \<and> ltl_has_tangled_lines (hunk # hunks) commit_hash
             = (dbg @ [''Tangled line in '' @ commit_hash @ '': ''
                         @ splitlines (content hunk) ! nat i,
                       ''Found label '' @ a @ '' and '' @ b], Inr True)
         \<and> a \<noteq> b
         \<and> (a, offs_a) \<in> set (lines_verified hunk) \<and> i \<in> set offs_a
         \<and> (b, offs_b) \<in> set (lines_verified hunk) \<and> i \<in> set offs_b
         \<and> ((\<forall>x xs y ys k. (x, xs) \<in> set (lines_verified hunk)
                 \<and> (y, ys) \<in> set (lines_verified hunk)
                 \<and> x \<noteq> y \<and> k \<in> set xs \<and> k \<in> set ys \<longrightarrow> {x, y} = {l1, l2})
             \<longrightarrow> {a, b} = {l1, l2})"
proof -
  let ?lv = "lines_verified hunk"
  let ?ps = "offset_pairs ?lv"
  let ?ls = "splitlines (content hunk)"
  have nonneg: "\<forall>(l, offs)\<in>set ?lv. \<forall>i\<in>set offs. 0 \<le> i"
    using wf by fastforce
  have pnonneg: "\<forall>(l, i)\<in>set ?ps. 0 \<le> i"
    using nonneg by (rule offset_pairs_nonneg)
  have plabels: "\<forall>(l, i)\<in>set ?ps. l \<noteq> []"
    using wf by (fastforce simp: set_offset_pairs)
  have pdist: "distinct ?ps"
    using keys wf by (intro distinct_offset_pairs) auto
  have in1: "(l1, j) \<in> set ?ps" using l1 j1 by (auto simp: set_offset_pairs)
  have in2: "(l2, j) \<in> set ?ps" using l2 j2 by (auto simp: set_offset_pairs)
  have "collision (\<lambda>_. None) ?ps \<noteq> None"
  proof
    assume "collision (\<lambda>_. None) ?ps = None"
    from collision_NoneD[OF this plabels] have "distinct (map (\<lambda>p. nat (snd p)) ?ps)" by blast
    then have "inj_on (\<lambda>p. nat (snd p)) (set ?ps)" by (simp add: distinct_map)
    from inj_onD[OF this _ in1 in2] have "l1 = l2" by simp
    with ne show False by contradiction
  qed
  then obtain a0 b i where c: "collision (\<lambda>_. None) ?ps = Some (a0, b, i)"
    by (cases "collision (\<lambda>_. None) ?ps") auto
  from collision_from_empty[OF pnonneg c] obtain a pre post where
    a0: "a0 = Some a" and ps: "?ps = pre @ (b, i) # post" and ain: "(a, i) \<in> set pre"
    by blast
  from pdist ps ain have ab: "a \<noteq> b" by auto
  from ps ain have "(a, i) \<in> set ?ps" "(b, i) \<in> set ?ps" by auto
  then obtain offs_a offs_b where
    oa: "(a, offs_a) \<in> set ?lv" "i \<in> set offs_a"
    and ob: "(b, offs_b) \<in> set ?lv" "i \<in> set offs_b"
    by (auto simp: set_offset_pairs)
  from wf oa have range: "nat i < length ?ls" by fastforce
  let ?out = "[''Tangled line in '' @ commit_hash @ '': '' @ ?ls ! nat i,
               ''Found label '' @ a @ '' and '' @ b]"
  have res: "has_tangled_lines (hunk # hunks) commit_hash = (?out, Inr True)"
    using has_tangled_lines_Cons[OF nonneg, of hunks commit_hash] c a0 range
    by (simp add: collision_outcome_def)
  obtain dbg where "ltl_has_tangled_lines (hunk # hunks) commit_hash
      = (dbg @ fst (has_tangled_lines (hunk # hunks) commit_hash),
         snd (has_tangled_lines (hunk # hunks) commit_hash))"
    using ltl_has_tangled_lines_sim by blast
  then have ltl: "ltl_has_tangled_lines (hunk # hunks) commit_hash = (dbg @ ?out, Inr True)"
    unfolding res by simp
  have only: "(\<forall>x xs y ys k. (x, xs) \<in> set ?lv \<and> (y, ys) \<in> set ?lv
                 \<and> x \<noteq> y \<and> k \<in> set xs \<and> k \<in> set ys \<longrightarrow> {x, y} = {l1, l2})
             \<longrightarrow> {a, b} = {l1, l2}"
    using oa ob ab by blast
  from res ltl ab oa ob only show ?thesis by blast
qed

theorem colliding_labels_are_reported_witness:
  "\<exists>a b i dbg.
      has_tangled_lines
        [\<lparr>hunk_file_action_id = 101, content = ''a'' @ [CHR 0x0A] @ ''b'' @ [CHR 0x0A] @ ''c'',
          lines_verified = [(''bugfix'', [0, 2]), (''documentation'', [2])]\<rparr>] ''c0ffee''
        = ([''Tangled line in c0ffee: '' @ [''a'', ''b'', ''c''] ! nat i,
            ''Found label '' @ a @ '' and '' @ b], Inr True)
    \<and> ltl_has_tangled_lines
        [\<lparr>hunk_file_action_id = 101, content = ''a'' @ [CHR 0x0A] @ ''b'' @ [CHR 0x0A] @ ''c'',
          lines_verified = [(''bugfix'', [0, 2]), (''documentation'', [2])]\<rparr>] ''c0ffee''
        = (dbg @ [''Tangled line in c0ffee: '' @ [''a'', ''b'', ''c''] ! nat i,
                  ''Found label '' @ a @ '' and '' @ b], Inr True)
    \<and> {a, b} = {''bugfix'', ''documentation''}"
proof -
  let ?h = "\<lparr>hunk_file_action_id = 101, content = ''a'' @ [CHR 0x0A] @ ''b'' @ [CHR 0x0A] @ ''c'',
             lines_verified = [(''bugfix'', [0, 2]), (''documentation'', [2])]\<rparr>"
  have ls: "splitlines (content ?h) = [''a'', ''b'', ''c'']"
    by (simp add: splitlines_def is_line_boundary_def)
  have keys: "distinct (map fst (lines_verified ?h))" by simp
  have wf: "\<forall>(l, offs)\<in>set (lines_verified ?h).
               l \<noteq> [] \<and> distinct offs
               \<and> (\<forall>i\<in>set offs. 0 \<le> i \<and> i < int (length (splitlines (content ?h))))"
    unfolding ls by simp
  have l1: "(''bugfix'', [0, 2]) \<in> set (lines_verified ?h)" by simp
  have l2: "(''documentation'', [2]) \<in> set (lines_verified ?h)" by simp
  have ne: "''bugfix'' \<noteq> ''documentation''" by simp
  have j1: "(2::int) \<in> set [0, 2]" by simp
  have j2: "(2::int) \<in> set [2]" by simp
  have only: "\<forall>x xs y ys k. (x, xs) \<in> set (lines_verified ?h)
                 \<and> (y, ys) \<in> set (lines_verified ?h)
                 \<and> x \<noteq> y \<and> k \<in> set xs \<and> k \<in> set ys
                 \<longrightarrow> {x, y} = {''bugfix'', ''documentation''}"
    by auto
  from colliding_labels_are_reported[OF keys wf l1 l2 ne j1 j2, of "[]" "''c0ffee''"]
  obtain a b i dbg where
    r: "has_tangled_lines [?h] ''c0ffee''
          = ([''Tangled line in '' @ ''c0ffee'' @ '': '' @ splitlines (content ?h) ! nat i,
              ''Found label '' @ a @ '' and '' @ b], Inr True)"
       "ltl_has_tangled_lines [?h] ''c0ffee''
          = (dbg @ [''Tangled line in '' @ ''c0ffee'' @ '': '' @ splitlines (content ?h) ! nat i,
              ''Found label '' @ a @ '' and '' @ b], Inr True)"
    and imp: "(\<forall>x xs y ys k. (x, xs) \<in> set (lines_verified ?h)
                 \<and> (y, ys) \<in> set (lines_verified ?h)
                 \<and> x \<noteq> y \<and> k \<in> set xs \<and> k \<in> set ys
                 \<longrightarrow> {x, y} = {''bugfix'', ''documentation''})
              \<longrightarrow> {a, b} = {''bugfix'', ''documentation''}"
    by blast
  from imp only have ab: "{a, b} = {''bugfix'', ''documentation''}" by blast
  have "has_tangled_lines [?h] ''c0ffee''
          = ([''Tangled line in c0ffee: '' @ [''a'', ''b'', ''c''] ! nat i,
              ''Found label '' @ a @ '' and '' @ b], Inr True)"
    using r(1) unfolding ls by simp
  moreover have "ltl_has_tangled_lines [?h] ''c0ffee''
          = (dbg @ [''Tangled line in c0ffee: '' @ [''a'', ''b'', ''c''] ! nat i,
              ''Found label '' @ a @ '' and '' @ b], Inr True)"
    using r(2) unfolding ls by simp
  ultimately show ?thesis using ab by blast
qed




section \<open>Commits and files\<close>

lemma file_actions_loop_skip:
  "\<forall>fa\<in>set skipped. \<exists>f. get_changed_file d fa = Inr f \<and> (\<not> is_java_file f \<or> is_test_file f) \<Longrightarrow>
   file_actions_loop d commit tangle_func (skipped @ rest) = file_actions_loop d commit tangle_func rest"
  by (induction skipped) auto

lemma ltl_file_actions_loop_skip:
  "\<forall>fa\<in>set skipped. \<exists>f. ltl_changed_file d fa = Inr f \<and> \<not> ltl_in_scope f \<Longrightarrow>
   ltl_file_actions_loop d commit (skipped @ rest) = ltl_file_actions_loop d commit rest"
  by (induction skipped) auto

lemma File_get_None: "File_get d None = Inl ValidationError"
  by (simp add: File_get_def)

lemma contains_test:
  "str_contains p ''test/'' \<Longrightarrow> str_contains p ''test''"
  "str_contains p ''tests/'' \<Longrightarrow> str_contains p ''test''"
  "str_contains p ''src/test'' \<Longrightarrow> str_contains p ''test''"
  "str_contains p ''src/test/'' \<Longrightarrow> str_contains p ''test/''"
  "str_contains p ''src/test/'' \<Longrightarrow> str_contains p ''src/test''"
proof -
  have a: "sublist ''test'' ''test/''" by (simp add: sublist_Cons_right)
  have b: "sublist ''test'' ''tests/''" by (simp add: sublist_Cons_right)
  have c: "sublist ''test'' ''src/test''" by (simp add: sublist_Cons_right)
  have d: "sublist ''test/'' ''src/test/''" by (simp add: sublist_Cons_right)
  have e: "sublist ''src/test'' ''src/test/''" by (simp add: sublist_Cons_right)
  show "str_contains p ''test/'' \<Longrightarrow> str_contains p ''test''"
    unfolding str_contains_def using a sublist_order.order_trans by blast
  show "str_contains p ''tests/'' \<Longrightarrow> str_contains p ''test''"
    unfolding str_contains_def using b sublist_order.order_trans by blast
  show "str_contains p ''src/test'' \<Longrightarrow> str_contains p ''test''"
    unfolding str_contains_def using c sublist_order.order_trans by blast
  show "str_contains p ''src/test/'' \<Longrightarrow> str_contains p ''test/''"
    unfolding str_contains_def using d sublist_order.order_trans by blast
  show "str_contains p ''src/test/'' \<Longrightarrow> str_contains p ''src/test''"
    unfolding str_contains_def using e sublist_order.order_trans by blast
qed

text \<open>
  C4. A commit without labels, or without a true \<^verbatim>\<open>validated_bugfix\<close> label, or with a
  number of parents other than one, is not tangled: both \<open>is_commit_tangled\<close>, with any
  tangle function, and \<open>is_tangled\<close> of \<^verbatim>\<open>list_tangled_lines.py\<close> return false, print
  nothing and raise nothing.
\<close>

theorem not_eligible_is_not_tangled:
  assumes "labels commit = None
           \<or> (\<exists>ls. labels commit = Some ls \<and> map_of ls ''validated_bugfix'' \<noteq> Some True)
           \<or> length (parents commit) \<noteq> 1"
  shows "is_commit_tangled d commit tangle_func = ([], Inr (Some False))
         \<and> ltl_is_tangled d commit = ([], Inr (Some False))"
  using assms
  by (auto simp: is_commit_tangled_def ltl_is_tangled_def split: option.splits)

theorem not_eligible_is_not_tangled_witness:
  "is_commit_tangled ex_db (ex_commit 12 (Some [(''validated_bugfix'', False)]) [''p''])
       has_tangled_lines = ([], Inr (Some False))
   \<and> ltl_is_tangled ex_db (ex_commit 12 (Some [(''validated_bugfix'', False)]) [''p''])
       = ([], Inr (Some False))
   \<and> is_commit_tangled ex_db (ex_commit 13 (Some [(''validated_bugfix'', True)]) [''p'', ''q''])
       (\<lambda>hunks h. ([], Inr (has_tangled_hunks ex_settings hunks h))) = ([], Inr (Some False))
   \<and> ltl_is_tangled ex_db (ex_commit 13 (Some [(''validated_bugfix'', True)]) [''p'', ''q''])
       = ([], Inr (Some False))
   \<and> is_commit_tangled ex_db (ex_commit 14 None [''p'']) has_tangled_lines
       = ([], Inr (Some False))
   \<and> ltl_is_tangled ex_db (ex_commit 14 None [''p'']) = ([], Inr (Some False))"
  using not_eligible_is_not_tangled
          [where commit = "ex_commit 12 (Some [(''validated_bugfix'', False)]) [''p'']"
             and d = ex_db and tangle_func = has_tangled_lines]
        not_eligible_is_not_tangled
          [where commit = "ex_commit 13 (Some [(''validated_bugfix'', True)]) [''p'', ''q'']"
             and d = ex_db
             and tangle_func = "\<lambda>hunks h. ([], Inr (has_tangled_hunks ex_settings hunks h))"]
        not_eligible_is_not_tangled
          [where commit = "ex_commit 14 None [''p'']"
             and d = ex_db and tangle_func = has_tangled_lines]
  by (simp add: ex_commit_def)

text \<open>
  C5. For an eligible commit, let the file actions before \<open>fa\<close> resolve to files that
  the filter rejects, and \<open>fa\<close> to a file it accepts. Then the result is that of the
  tangle function on the hunks of \<open>fa\<close>, whatever the later file actions are. This holds
  for \<open>is_commit_tangled\<close> with its filter and for \<open>is_tangled\<close> of
  \<^verbatim>\<open>list_tangled_lines.py\<close> with its own. In the small data set, commit 10 has a test
  file first and a source file with a doubly labelled line second: the result is true.
\<close>

theorem first_in_scope_file_action_decides:
  assumes "labels commit = Some ls"
    and "map_of ls ''validated_bugfix'' = Some True"
    and "length (parents commit) = 1"
    and "filter (\<lambda>fa. fa_commit_id fa = commit_id commit) (FileAction_objects d)
           = skipped @ fa # later"
  shows "((\<forall>fa'\<in>set skipped. \<exists>f. get_changed_file d fa' = Inr f
              \<and> \<not> (is_java_file f \<and> \<not> is_test_file f))
          \<and> (\<exists>f. get_changed_file d fa = Inr f \<and> is_java_file f \<and> \<not> is_test_file f)
          \<longrightarrow> is_commit_tangled d commit tangle_func =
                (case tangle_func
                        (filter (\<lambda>h. hunk_file_action_id h = file_action_id fa) (Hunk_objects d))
                        (revision_hash commit) of
                   (out, Inl e) \<Rightarrow> (out, Inl e)
                 | (out, Inr b) \<Rightarrow> (out, Inr (Some b))))
       \<and> ((\<forall>fa'\<in>set skipped. \<exists>f. ltl_changed_file d fa' = Inr f \<and> \<not> ltl_in_scope f)
          \<and> (\<exists>f. ltl_changed_file d fa = Inr f \<and> ltl_in_scope f)
          \<longrightarrow> ltl_is_tangled d commit =
                (case ltl_has_tangled_lines
                        (filter (\<lambda>h. hunk_file_action_id h = file_action_id fa) (Hunk_objects d))
                        (revision_hash commit) of
                   (out, Inl e) \<Rightarrow> (out, Inl e)
                 | (out, Inr b) \<Rightarrow> (out, Inr (Some b))))"
proof (intro conjI impI)
  assume h: "(\<forall>fa'\<in>set skipped. \<exists>f. get_changed_file d fa' = Inr f
              \<and> \<not> (is_java_file f \<and> \<not> is_test_file f))
          \<and> (\<exists>f. get_changed_file d fa = Inr f \<and> is_java_file f \<and> \<not> is_test_file f)"
  then have skip: "\<forall>fa'\<in>set skipped. \<exists>f. get_changed_file d fa' = Inr f
              \<and> (\<not> is_java_file f \<or> is_test_file f)" by blast
  from h obtain f where f: "get_changed_file d fa = Inr f" "is_java_file f" "\<not> is_test_file f"
    by blast
  have "is_commit_tangled d commit tangle_func
          = file_actions_loop d commit tangle_func (skipped @ fa # later)"
    using assms by (simp add: is_commit_tangled_def)
  also have "\<dots> = file_actions_loop d commit tangle_func (fa # later)"
    using skip by (rule file_actions_loop_skip)
  finally show "is_commit_tangled d commit tangle_func =
                (case tangle_func
                        (filter (\<lambda>h. hunk_file_action_id h = file_action_id fa) (Hunk_objects d))
                        (revision_hash commit) of
                   (out, Inl e) \<Rightarrow> (out, Inl e)
                 | (out, Inr b) \<Rightarrow> (out, Inr (Some b)))"
    using f by simp
next
  assume h: "(\<forall>fa'\<in>set skipped. \<exists>f. ltl_changed_file d fa' = Inr f \<and> \<not> ltl_in_scope f)
          \<and> (\<exists>f. ltl_changed_file d fa = Inr f \<and> ltl_in_scope f)"
  then have skip: "\<forall>fa'\<in>set skipped. \<exists>f. ltl_changed_file d fa' = Inr f \<and> \<not> ltl_in_scope f"
    by blast
  from h obtain f where f: "ltl_changed_file d fa = Inr f" "ltl_in_scope f" by blast
  have "ltl_is_tangled d commit = ltl_file_actions_loop d commit (skipped @ fa # later)"
    using assms by (simp add: ltl_is_tangled_def)
  also have "\<dots> = ltl_file_actions_loop d commit (fa # later)"
    using skip by (rule ltl_file_actions_loop_skip)
  finally show "ltl_is_tangled d commit =
                (case ltl_has_tangled_lines
                        (filter (\<lambda>h. hunk_file_action_id h = file_action_id fa) (Hunk_objects d))
                        (revision_hash commit) of
                   (out, Inl e) \<Rightarrow> (out, Inl e)
                 | (out, Inr b) \<Rightarrow> (out, Inr (Some b)))"
    using f by simp
qed

theorem first_in_scope_file_action_decides_witness:
  "is_commit_tangled ex_db (ex_commit 10 (Some [(''validated_bugfix'', True)]) [''p''])
       has_tangled_lines
     = ([''Tangled line in c0000000000: c'', ''Found label bugfix and documentation''],
        Inr (Some True))
   \<and> ltl_is_tangled ex_db (ex_commit 10 (Some [(''validated_bugfix'', True)]) [''p''])
     = ([''Line 0 has label bugfix, content: None'',
         ''Line 2 has label bugfix, content: None'',
         ''Line 2 has label documentation, content: bugfix'',
         ''Tangled line in c0000000000: c'', ''Found label bugfix and documentation''],
        Inr (Some True))"
proof -
  let ?c = "ex_commit 10 (Some [(''validated_bugfix'', True)]) [''p'']"
  let ?fa0 = "\<lparr>file_action_id = 100, fa_commit_id = 10, file_id = Some 1000,
                old_file_id = None, mode = ''M''\<rparr>"
  let ?fa1 = "\<lparr>file_action_id = 101, fa_commit_id = 10, file_id = Some 1001,
                old_file_id = None, mode = ''M''\<rparr>"
  let ?fa2 = "\<lparr>file_action_id = 102, fa_commit_id = 10, file_id = Some 1002,
                old_file_id = None, mode = ''M''\<rparr>"
  have a1: "labels ?c = Some [(''validated_bugfix'', True)]" by (simp add: ex_commit_def)
  have a2: "map_of [(''validated_bugfix'', True)] ''validated_bugfix'' = Some True" by simp
  have a3: "length (parents ?c) = 1" by (simp add: ex_commit_def)
  have a4: "filter (\<lambda>fa. fa_commit_id fa = commit_id ?c) (FileAction_objects ex_db)
              = [?fa0] @ ?fa1 # [?fa2]"
    by (simp add: db_eval)
  have s1: "(\<forall>fa'\<in>set [?fa0]. \<exists>f. get_changed_file ex_db fa' = Inr f
                \<and> \<not> (is_java_file f \<and> \<not> is_test_file f))
            \<and> (\<exists>f. get_changed_file ex_db ?fa1 = Inr f \<and> is_java_file f \<and> \<not> is_test_file f)"
    by (simp add: db_eval str_eval)
  have s2: "(\<forall>fa'\<in>set [?fa0]. \<exists>f. ltl_changed_file ex_db fa' = Inr f \<and> \<not> ltl_in_scope f)
            \<and> (\<exists>f. ltl_changed_file ex_db ?fa1 = Inr f \<and> ltl_in_scope f)"
    by (simp add: db_eval str_eval)
  have h: "filter (\<lambda>h. hunk_file_action_id h = file_action_id ?fa1) (Hunk_objects ex_db)
            = [\<lparr>hunk_file_action_id = 101,
                 content = ''a'' @ [CHR 0x0A] @ ''b'' @ [CHR 0x0A] @ ''c'',
                 lines_verified = [(''bugfix'', [0, 2]), (''documentation'', [2])]\<rparr>]"
    by (simp add: db_eval)
  have r: "revision_hash ?c = ''c0000000000''"
    by (simp add: ex_commit_def eval_nat_numeral)
  note dec = first_in_scope_file_action_decides[OF a1 a2 a3 a4, where tangle_func = has_tangled_lines]
  from dec[THEN conjunct1, THEN mp, OF s1] have "is_commit_tangled ex_db ?c has_tangled_lines
     = ([''Tangled line in c0000000000: c'', ''Found label bugfix and documentation''],
        Inr (Some True))"
    unfolding h r by (simp add: line_eval)
  moreover from dec[THEN conjunct2, THEN mp, OF s2] have "ltl_is_tangled ex_db ?c
     = ([''Line 0 has label bugfix, content: None'',
         ''Line 2 has label bugfix, content: None'',
         ''Line 2 has label documentation, content: bugfix'',
         ''Tangled line in c0000000000: c'', ''Found label bugfix and documentation''],
        Inr (Some True))"
    unfolding h r by (simp add: line_eval ltl_has_tangled_lines_def str_int_def)
  ultimately show ?thesis by simp
qed

text \<open>
  A file action of mode \<^verbatim>\<open>C\<close> with both an old and a new file: \<open>get_changed_file\<close>
  resolves it to the new file, the loop of \<^verbatim>\<open>list_tangled_lines.py\<close> to the old one.
\<close>

theorem ltl_prefers_old_file_counterexample:
  "get_changed_file ex_db
      \<lparr>file_action_id = 151, fa_commit_id = 15, file_id = Some 1005, old_file_id = Some 1004,
       mode = ''C''\<rparr>
     = Inr \<lparr>file_oid = 1005, path = ''src/main/java/org/B.java''\<rparr>
   \<and> ltl_changed_file ex_db
      \<lparr>file_action_id = 151, fa_commit_id = 15, file_id = Some 1005, old_file_id = Some 1004,
       mode = ''C''\<rparr>
     = Inr \<lparr>file_oid = 1004, path = ''src/main/java/org/A.java''\<rparr>"
  by (simp add: db_eval)

text \<open>
  C6, as the scripts have it. \<open>get_changed_file\<close> takes the new file whenever
  \<open>file_id\<close> is present and the old file otherwise. The loop of
  \<^verbatim>\<open>list_tangled_lines.py\<close> takes the new file when there is no old file or the mode is
  \<^verbatim>\<open>R\<close>, and the old file otherwise. For a rename (mode \<^verbatim>\<open>R\<close>) whose two files
  resolve, both take the new file.
\<close>

theorem changed_file_resolution:
  "(file_id fa \<noteq> None \<longrightarrow> get_changed_file d fa = File_get d (file_id fa))
   \<and> (file_id fa = None \<longrightarrow> get_changed_file d fa = File_get d (old_file_id fa))
   \<and> (old_file_id fa = None \<longrightarrow> ltl_changed_file d fa = File_get d (file_id fa))
   \<and> (File_get d (old_file_id fa) = Inr old_file \<and> mode fa = ''R''
        \<longrightarrow> ltl_changed_file d fa = File_get d (file_id fa))
   \<and> (File_get d (old_file_id fa) = Inr old_file \<and> mode fa \<noteq> ''R''
        \<longrightarrow> ltl_changed_file d fa = Inr old_file)
   \<and> (mode fa = ''R'' \<and> File_get d (old_file_id fa) = Inr old_file
        \<and> File_get d (file_id fa) = Inr new_file
        \<longrightarrow> get_changed_file d fa = Inr new_file \<and> ltl_changed_file d fa = Inr new_file)"
proof -
  have old: "File_get d (old_file_id fa) = Inr old_file \<Longrightarrow> old_file_id fa \<noteq> None"
    by (cases "old_file_id fa") (simp_all add: File_get_None)
  have new: "File_get d (file_id fa) = Inr new_file \<Longrightarrow> file_id fa \<noteq> None"
    by (cases "file_id fa") (simp_all add: File_get_None)
  show ?thesis
    using old new by (auto simp: get_changed_file_def ltl_changed_file_def)
qed

theorem changed_file_resolution_witness:
  "get_changed_file ex_db
      \<lparr>file_action_id = 150, fa_commit_id = 15, file_id = Some 1005, old_file_id = Some 1004,
       mode = ''R''\<rparr>
     = Inr \<lparr>file_oid = 1005, path = ''src/main/java/org/B.java''\<rparr>
   \<and> ltl_changed_file ex_db
      \<lparr>file_action_id = 150, fa_commit_id = 15, file_id = Some 1005, old_file_id = Some 1004,
       mode = ''R''\<rparr>
     = Inr \<lparr>file_oid = 1005, path = ''src/main/java/org/B.java''\<rparr>
   \<and> get_changed_file ex_db
      \<lparr>file_action_id = 111, fa_commit_id = 11, file_id = None, old_file_id = Some 1003,
       mode = ''D''\<rparr>
     = Inr \<lparr>file_oid = 1003, path = ''NOTICE.txt''\<rparr>"
proof -
  let ?fa = "\<lparr>file_action_id = 150, fa_commit_id = 15, file_id = Some 1005,
               old_file_id = Some 1004, mode = ''R''\<rparr>"
  let ?del = "\<lparr>file_action_id = 111, fa_commit_id = 11, file_id = None,
               old_file_id = Some 1003, mode = ''D''\<rparr>"
  have o: "File_get ex_db (old_file_id ?fa) = Inr \<lparr>file_oid = 1004, path = ''src/main/java/org/A.java''\<rparr>"
    by (simp add: db_eval)
  have n: "File_get ex_db (file_id ?fa) = Inr \<lparr>file_oid = 1005, path = ''src/main/java/org/B.java''\<rparr>"
    by (simp add: db_eval)
  have d: "File_get ex_db (old_file_id ?del) = Inr \<lparr>file_oid = 1003, path = ''NOTICE.txt''\<rparr>"
    by (simp add: db_eval)
  from changed_file_resolution[where fa = ?fa and d = ex_db
         and old_file = "\<lparr>file_oid = 1004, path = ''src/main/java/org/A.java''\<rparr>"
         and new_file = "\<lparr>file_oid = 1005, path = ''src/main/java/org/B.java''\<rparr>"]
       changed_file_resolution[where fa = ?del and d = ex_db] o n d
  show ?thesis by simp
qed

text \<open>
  C7. For an eligible commit none of whose file actions resolves to a file in scope,
  \<open>is_commit_tangled\<close> reaches the end of its body: the value is \<^verbatim>\<open>None\<close>, nothing is
  printed, and the loop over the commits goes on with the list of tangled commits
  unchanged.
\<close>

theorem no_in_scope_file_yields_None:
  assumes "labels commit = Some ls"
    and "map_of ls ''validated_bugfix'' = Some True"
    and "length (parents commit) = 1"
    and "\<forall>fa\<in>set (filter (\<lambda>fa. fa_commit_id fa = commit_id commit) (FileAction_objects d)).
           \<exists>f. get_changed_file d fa = Inr f \<and> (\<not> is_java_file f \<or> is_test_file f)"
  shows "is_commit_tangled d commit tangle_func = ([], Inr None)
         \<and> commits_loop d tangle_func project (commit # commits) tangled_commits
             = commits_loop d tangle_func project commits tangled_commits"
proof -
  have "is_commit_tangled d commit tangle_func
          = file_actions_loop d commit tangle_func
              (filter (\<lambda>fa. fa_commit_id fa = commit_id commit) (FileAction_objects d) @ [])"
    using assms(1-3) by (simp add: is_commit_tangled_def)
  also have "\<dots> = file_actions_loop d commit tangle_func []"
    using assms(4) by (rule file_actions_loop_skip)
  finally have r: "is_commit_tangled d commit tangle_func = ([], Inr None)" by simp
  then show ?thesis by (simp split: prod.splits)
qed

theorem no_in_scope_file_yields_None_witness:
  "is_commit_tangled ex_db (ex_commit 11 (Some [(''validated_bugfix'', True)]) [''p''])
       has_tangled_lines = ([], Inr None)
   \<and> commits_loop ex_db has_tangled_lines \<lparr>project_id = 1, name = ''commons-lang''\<rparr>
       [ex_commit 11 (Some [(''validated_bugfix'', True)]) [''p'']] []
     = ([], Inr [])"
proof -
  let ?c = "ex_commit 11 (Some [(''validated_bugfix'', True)]) [''p'']"
  have a1: "labels ?c = Some [(''validated_bugfix'', True)]" by (simp add: ex_commit_def)
  have a2: "map_of [(''validated_bugfix'', True)] ''validated_bugfix'' = Some True" by simp
  have a3: "length (parents ?c) = 1" by (simp add: ex_commit_def)
  have a4: "\<forall>fa\<in>set (filter (\<lambda>fa. fa_commit_id fa = commit_id ?c) (FileAction_objects ex_db)).
              \<exists>f. get_changed_file ex_db fa = Inr f \<and> (\<not> is_java_file f \<or> is_test_file f)"
    by (simp add: db_eval str_eval)
  from no_in_scope_file_yields_None[OF a1 a2 a3 a4, where tangle_func = has_tangled_lines
      and project = "\<lparr>project_id = 1, name = ''commons-lang''\<rparr>" and commits = "[]"
      and tangled_commits = "[]"]
  show ?thesis by simp
qed

text \<open>
  C8. For a granularity other than \<^verbatim>\<open>hunk\<close> and \<^verbatim>\<open>line\<close>, \<open>find_tangled_commits\<close>
  raises \<^verbatim>\<open>ValueError\<close> with \<^verbatim>\<open>connect_to_db\<close> not called, and \<open>main\<close> exits with
  status 2 before it calls \<open>find_tangled_commits\<close>; neither outcome depends on the data
  set.
\<close>

theorem unknown_granularity_fails_before_connecting:
  assumes "tangle_granularity \<noteq> ''hunk''" and "tangle_granularity \<noteq> ''line''"
  shows "find_tangled_commits cfg d tangle_granularity
           = (False, [], Inl (ValueError (''Unknown tangle granularity: '' @ tangle_granularity)))
         \<and> main cfg d tangle_granularity = (False, [], Inl (SystemExit 2))"
  using assms by (simp add: find_tangled_commits_def main_def)

theorem unknown_granularity_fails_before_connecting_witness:
  "find_tangled_commits ex_settings ex_db ''file''
     = (False, [], Inl (ValueError ''Unknown tangle granularity: file''))
   \<and> main ex_settings ex_db ''file'' = (False, [], Inl (SystemExit 2))"
  using unknown_granularity_fails_before_connecting
          [where tangle_granularity = "''file''" and cfg = ex_settings and d = ex_db]
  by simp

section \<open>The two file filters\<close>

text \<open>
  A source file named \<^verbatim>\<open>FooTests.java\<close> outside any test directory is rejected by the
  filter of \<^verbatim>\<open>list_tangled_commits.py\<close> and accepted by that of
  \<^verbatim>\<open>list_tangled_lines.py\<close>.
\<close>

theorem file_filters_differ_counterexample:
  "\<not> ((is_java_file \<lparr>file_oid = 1, path = ''src/main/java/org/FooTests.java''\<rparr>
        \<and> \<not> is_test_file \<lparr>file_oid = 1, path = ''src/main/java/org/FooTests.java''\<rparr>)
       \<longleftrightarrow> ltl_in_scope \<lparr>file_oid = 1, path = ''src/main/java/org/FooTests.java''\<rparr>)"
  by (simp add: str_eval)

text \<open>
  C10, as the scripts have it. The two filters agree on every path that does not contain
  \<^verbatim>\<open>test\<close> and does not end with \<^verbatim>\<open>Tests.java\<close>; both reject every path that contains
  \<^verbatim>\<open>src/test/\<close>; and a path that either accepts ends with \<^verbatim>\<open>.java\<close> and not with
  \<^verbatim>\<open>Test.java\<close>.
\<close>

theorem file_filters_agree_away_from_tests:
  "(\<not> str_contains (path f) ''test'' \<and> \<not> endswith (path f) ''Tests.java''
      \<longrightarrow> ((is_java_file f \<and> \<not> is_test_file f) \<longleftrightarrow> ltl_in_scope f))
   \<and> (str_contains (path f) ''src/test/''
      \<longrightarrow> \<not> (is_java_file f \<and> \<not> is_test_file f) \<and> \<not> ltl_in_scope f)
   \<and> (is_java_file f \<and> \<not> is_test_file f \<or> ltl_in_scope f
      \<longrightarrow> endswith (path f) ''.java'' \<and> \<not> endswith (path f) ''Test.java'')"
  using contains_test[of "path f"]
  by (auto simp: is_java_file_def is_test_file_def ltl_in_scope_def)

theorem file_filters_agree_away_from_tests_witness:
  "(is_java_file \<lparr>file_oid = 1001, path = ''src/main/java/org/Foo.java''\<rparr>
      \<and> \<not> is_test_file \<lparr>file_oid = 1001, path = ''src/main/java/org/Foo.java''\<rparr>)
   \<and> ltl_in_scope \<lparr>file_oid = 1001, path = ''src/main/java/org/Foo.java''\<rparr>
   \<and> \<not> (is_java_file \<lparr>file_oid = 1000, path = ''src/test/java/org/FooTest.java''\<rparr>
      \<and> \<not> is_test_file \<lparr>file_oid = 1000, path = ''src/test/java/org/FooTest.java''\<rparr>)
   \<and> \<not> ltl_in_scope \<lparr>file_oid = 1000, path = ''src/test/java/org/FooTest.java''\<rparr>"
proof -
  have a: "\<not> str_contains (path \<lparr>file_oid = 1001, path = ''src/main/java/org/Foo.java''\<rparr>) ''test''
     \<and> \<not> endswith (path \<lparr>file_oid = 1001, path = ''src/main/java/org/Foo.java''\<rparr>) ''Tests.java''"
    by (simp add: str_eval)
  have b: "str_contains (path \<lparr>file_oid = 1000, path = ''src/test/java/org/FooTest.java''\<rparr>) ''src/test/''"
    by (simp add: str_eval)
  have c: "is_java_file \<lparr>file_oid = 1001, path = ''src/main/java/org/Foo.java''\<rparr>"
    by (simp add: str_eval)
  from file_filters_agree_away_from_tests[where f = "\<lparr>file_oid = 1001, path = ''src/main/java/org/Foo.java''\<rparr>"]
       file_filters_agree_away_from_tests[where f = "\<lparr>file_oid = 1000, path = ''src/test/java/org/FooTest.java''\<rparr>"]
       a b c
  show ?thesis by (simp add: str_eval)
qed

end
